theory Spec2Isabelle
  imports Main "HOL-Library.AList"
begin

section \<open>Grant Ships: the ledger of \<open>src/server.js\<close>\<close>

text \<open>
  The server keeps four in-memory JavaScript \<open>Map\<close>s (ships, applications, allocations,
  distributions) and mutates them in its request handlers. Each handler is embedded as a
  function from the state before the request to either an error response or the state
  after it together with the response. Every early \<open>return res.status(..)\<close> of the
  source happens before the first mutation, so an error carries no state.

  Conventions of the embedding:
  \<^item> amounts are JavaScript \<open>BigInt\<close>s stored as decimal strings; they are \<open>int\<close> here
    (\<open>BigInt(x.toString())\<close> is the identity);
  \<^item> a \<open>Map\<close> is an association list in insertion order; \<open>Map.set\<close> is \<open>AList.update\<close>
    (replace in place, or append), \<open>Map.get\<close> is \<open>map_of\<close>;
  \<^item> \<open>uuidv4()\<close> and \<open>Date.now()\<close> are inputs of the handler that calls them;
  \<^item> the blockchain client (\<open>getTransaction\<close>, \<open>getTransactionReceipt\<close>,
    \<open>sendTransaction\<close>) is an input: the outcome of each call;
  \<^item> body fields are taken at the types the service documents for them (strings, lists of
    strings, a number), \<open>None\<close> standing for an absent field; \<open>approved\<close> is an arbitrary
    JSON value since the source tests it with \<open>=== false\<close>;
  \<^item> \<open>formatETH\<close> (floating-point display) and \<open>console.log\<close> are left out: responses
    carry the amounts that the source passes to \<open>formatETH\<close>;
  \<^item> \<open>step\<close> and \<open>run\<close> serve every request as a whole, the next one being taken when
    the handler has ended; the \<open>async\<close> handler of a distribution call, which gives way
    at each \<open>await\<close>, is embedded a second time with its steps apart (\<open>cstep\<close>,
    \<open>crun\<close>), so that requests can be served while a call is in flight;
  \<^item> the \<open>requireWhitelist\<close> middleware in front of the POST handlers is not part of
    the ledger and is not modelled.
\<close>

subsection \<open>Library functions used by the handlers\<close>

text \<open>JavaScript \<open>BigInt\<close> division truncates towards zero.\<close>

definition bigint_div :: "int \<Rightarrow> int \<Rightarrow> int" where
  "bigint_div a b = sgn a * sgn b * (\<bar>a\<bar> div \<bar>b\<bar>)"

definition FEE_PERCENT :: int where
  "FEE_PERCENT = 5"

text \<open>\<open>String.prototype.toLowerCase\<close> on ASCII text (addresses are ASCII).\<close>

definition lower_char :: "char \<Rightarrow> char" where
  "lower_char c =
     (case map_of (zip ''ABCDEFGHIJKLMNOPQRSTUVWXYZ'' ''abcdefghijklmnopqrstuvwxyz'') c of
        Some d \<Rightarrow> d
      | None \<Rightarrow> c)"

definition toLowerCase :: "string \<Rightarrow> string" where
  "toLowerCase s = map lower_char s"

text \<open>
  \<open>ethers.parseEther\<close> (ethers v6, a dependency of the repository): the argument must match
  \<open>^(-?)([0-9]*)\.?([0-9]*)$\<close> with at least one digit; the fraction is padded to 18
  digits and may not have a non-zero digit beyond the 18th; the result is the signed
  integer read from sign, whole part and 18 fraction digits, and must fit 512 signed bits.
  \<open>None\<close> stands for the exception the library throws.
\<close>

definition is_digit :: "char \<Rightarrow> bool" where
  "is_digit c = (c \<in> set ''0123456789'')"

definition digit_val :: "char \<Rightarrow> int" where
  "digit_val c = int (length (takeWhile (\<lambda>d. d \<noteq> c) ''0123456789''))"

definition digits_val :: "string \<Rightarrow> int" where
  "digits_val ds = foldl (\<lambda>acc c. 10 * acc + digit_val c) 0 ds"

definition parseEther :: "string \<Rightarrow> int option" where
  "parseEther v =
     (let neg = (case v of [] \<Rightarrow> False | c # _ \<Rightarrow> c = CHR ''-'');
          r = (if neg then tl v else v);
          whole = takeWhile is_digit r;
          r1 = dropWhile is_digit r;
          r2 = (case r1 of [] \<Rightarrow> r1 | c # t \<Rightarrow> if c = CHR ''.'' then t else r1);
          decimal = takeWhile is_digit r2;
          rest = dropWhile is_digit r2
      in if rest \<noteq> [] \<or> length whole + length decimal = 0 then None
         else let padded = decimal @ replicate (18 - length decimal) (CHR ''0'')
              in if \<not> list_all (\<lambda>c. c = CHR ''0'') (drop 18 padded) then None
                 else let val = (if neg then - 1 else 1) * digits_val (whole @ take 18 padded)
                      in if - (2 ^ 511) \<le> val \<and> val < 2 ^ 511 then Some val else None)"

text \<open>JavaScript truthiness of an optional string, and \<open>x || ''\<close>.\<close>

definition str_or_empty :: "string option \<Rightarrow> string" where
  "str_or_empty x = (case x of None \<Rightarrow> [] | Some s \<Rightarrow> s)"

definition truthy :: "string option \<Rightarrow> bool" where
  "truthy x = (str_or_empty x \<noteq> [])"

text \<open>A JSON value as far as \<open>approved === false\<close> can tell values apart.\<close>

datatype json = JNull | JBool bool | JNumber int | JString string

subsection \<open>Data model\<close>

datatype ship_status = Open | Closed | Distributing | Completed

datatype app_status = Pending | Approved | Rejected

record ship =
  ship_id :: string
  ship_name :: string
  ship_description :: string
  ship_captain :: string
  ship_criteria :: "string list"
  ship_budget :: int
  ship_allocated :: int
  ship_distributed :: int
  ship_startDate :: int
  ship_endDate :: int
  ship_status :: ship_status
  ship_createdAt :: int

record application =
  app_id :: string
  app_shipId :: string
  app_shipName :: string
  app_applicant :: string
  app_projectName :: string
  app_description :: string
  app_requestAmount :: int
  app_links :: "string list"
  app_status :: app_status
  app_allocation :: int
  app_createdAt :: int

record allocation =
  alloc_id :: string
  alloc_shipId :: string
  alloc_applicationId :: string
  alloc_projectName :: string
  alloc_applicant :: string
  alloc_amount :: int
  alloc_distributed :: bool
  alloc_createdAt :: int
  alloc_distributedAt :: "int option"
  alloc_txHash :: "string option"

record payout =
  payout_allocationId :: string
  payout_projectName :: string
  payout_applicant :: string
  payout_gross :: int
  payout_net :: int
  payout_txHash :: string

record distribution =
  dist_id :: string
  dist_shipId :: string
  dist_shipName :: string
  dist_totalGross :: int
  dist_totalFee :: int
  dist_totalNet :: int
  dist_payouts :: "payout list"
  dist_createdAt :: int

record state =
  ships :: "(string \<times> ship) list"
  applications :: "(string \<times> application) list"
  allocations :: "(string \<times> allocation) list"
  distributions :: "(string \<times> distribution) list"

definition init_state :: state where
  "init_state = \<lparr>ships = [], applications = [], allocations = [], distributions = []\<rparr>"

text \<open>
  The process configuration: the treasury address, the signing key (\<open>getWallet()\<close> returns
  a wallet exactly when the key is a non-empty string) and \<open>ethers.isAddress\<close>, which is
  taken as a parameter.
\<close>

record config =
  TREASURY_ADDRESS :: string
  TREASURY_PRIVATE_KEY :: "string option"
  isAddress :: "string \<Rightarrow> bool"

definition getWallet :: "config \<Rightarrow> bool" where
  "getWallet cfg = truthy (TREASURY_PRIVATE_KEY cfg)"

text \<open>
  The responses with an error status, named by the taxonomy of the specification:
  400 \<open>name and captain required\<close>, \<open>Invalid captain address\<close>, \<open>txHash required\<close>,
  \<open>applicant and projectName required\<close>, \<open>Invalid applicant address\<close> are \<open>InvalidInput\<close>;
  400 \<open>Invalid requestAmount\<close> and \<open>Invalid amount\<close> are \<open>InvalidAmount\<close>;
  404 \<open>Ship not found\<close> and \<open>Application not found\<close> are \<open>NotFound\<close>;
  403 \<open>Only captain can allocate\<close> is \<open>Forbidden\<close>;
  400 \<open>Ship is not accepting applications\<close> is \<open>InvalidState\<close>;
  400 \<open>Insufficient budget\<close> is \<open>InsufficientBudget remaining requested\<close>;
  400 \<open>No pending allocations to distribute\<close> is \<open>NothingToDistribute\<close>;
  500 \<open>Wallet not configured\<close> is \<open>PaymentsUnavailable\<close>;
  400 \<open>Transaction not found or failed\<close> is \<open>TransactionNotFound\<close>;
  400 \<open>Not sent to treasury\<close> is \<open>WrongRecipient\<close>;
  500 with the message of a caught exception is \<open>Unexpected\<close>.
\<close>

datatype error =
    InvalidInput string
  | InvalidAmount
  | NotFound string
  | Forbidden
  | InvalidState
  | InsufficientBudget int int
  | NothingToDistribute
  | PaymentsUnavailable
  | TransactionNotFound
  | WrongRecipient
  | Unexpected string

subsection \<open>POST /ships\<close>

record ship_body =
  body_name :: "string option"
  body_description :: "string option"
  body_criteria :: "string list option"
  body_durationDays :: "int option"
  body_captain :: "string option"

definition post_ships ::
  "config \<Rightarrow> state \<Rightarrow> ship_body \<Rightarrow> string \<Rightarrow> int \<Rightarrow> error + state \<times> ship" where
  "post_ships cfg st body uuid now =
     (if \<not> truthy (body_name body) \<or> \<not> truthy (body_captain body)
      then Inl (InvalidInput ''name and captain required'')
      else if \<not> isAddress cfg (str_or_empty (body_captain body))
      then Inl (InvalidInput ''Invalid captain address'')
      else
        let s = \<lparr>ship_id = uuid,
                 ship_name = str_or_empty (body_name body),
                 ship_description = str_or_empty (body_description body),
                 ship_captain = toLowerCase (str_or_empty (body_captain body)),
                 ship_criteria = (case body_criteria body of None \<Rightarrow> [] | Some c \<Rightarrow> c),
                 ship_budget = 0,
                 ship_allocated = 0,
                 ship_distributed = 0,
                 ship_startDate = now,
                 ship_endDate = now +
                   (case body_durationDays body of None \<Rightarrow> 30 | Some d \<Rightarrow> if d = 0 then 30 else d)
                     * 24 * 60 * 60 * 1000,
                 ship_status = Open,
                 ship_createdAt = now\<rparr>
        in Inr (st\<lparr>ships := AList.update (ship_id s) s (ships st)\<rparr>, s))"

subsection \<open>GET /ships\<close>

text \<open>
  The listing closes every open ship whose end date has passed (\<open>ships.set(s.id, s)\<close> for
  each of them, in the order of the map) and returns the ships, filtered by status when a
  filter is given, newest first.
\<close>

fun close_expired :: "int \<Rightarrow> ship list \<Rightarrow> (string \<times> ship) list \<Rightarrow> (string \<times> ship) list" where
  "close_expired now [] m = m"
| "close_expired now (s # ss) m =
     (if ship_status s = Open \<and> now > ship_endDate s
      then close_expired now ss (AList.update (ship_id s) (s\<lparr>ship_status := Closed\<rparr>) m)
      else close_expired now ss m)"

definition get_ships :: "state \<Rightarrow> ship_status option \<Rightarrow> int \<Rightarrow> state \<times> ship list" where
  "get_ships st status now =
     (let results = map (\<lambda>s. if ship_status s = Open \<and> now > ship_endDate s
                              then s\<lparr>ship_status := Closed\<rparr> else s) (map snd (ships st));
          st' = st\<lparr>ships := close_expired now (map snd (ships st)) (ships st)\<rparr>;
          results' = (case status of None \<Rightarrow> results
                      | Some f \<Rightarrow> filter (\<lambda>s. ship_status s = f) results)
      in (st', sort_key (\<lambda>s. - ship_createdAt s) results'))"

subsection \<open>POST /ships/:id/fund\<close>

text \<open>
  The transaction and its receipt as the provider returns them: \<open>tx_to\<close> is \<open>null\<close> for a
  contract creation, \<open>tx_value\<close> is an unsigned amount of wei. \<open>RpcThrows\<close> is an exception
  of either call.
\<close>

record tx =
  tx_to :: "string option"
  tx_value :: nat

datatype rpc = RpcThrows string | RpcResult "tx option" "int option"

definition post_ships_fund ::
  "config \<Rightarrow> state \<Rightarrow> string \<Rightarrow> string option \<Rightarrow> rpc \<Rightarrow> error + state \<times> ship" where
  "post_ships_fund cfg st sid txHash chain =
     (case map_of (ships st) sid of
        None \<Rightarrow> Inl (NotFound ''Ship not found'')
      | Some s \<Rightarrow>
          if \<not> truthy txHash then Inl (InvalidInput ''txHash required'')
          else (case chain of
                  RpcThrows msg \<Rightarrow> Inl (Unexpected msg)
                | RpcResult None _ \<Rightarrow> Inl TransactionNotFound
                | RpcResult (Some t) receipt_status \<Rightarrow>
                    if receipt_status \<noteq> Some 1 then Inl TransactionNotFound
                    else if map_option toLowerCase (tx_to t) \<noteq> Some (toLowerCase (TREASURY_ADDRESS cfg))
                    then Inl WrongRecipient
                    else
                      let s' = s\<lparr>ship_budget := ship_budget s + int (tx_value t)\<rparr>
                      in Inr (st\<lparr>ships := AList.update (ship_id s') s' (ships st)\<rparr>, s')))"

subsection \<open>POST /ships/:id/apply\<close>

record apply_body =
  body_applicant :: "string option"
  body_projectName :: "string option"
  body_app_description :: "string option"
  body_links :: "string list option"
  body_requestAmount :: "string option"
  body_requested_amount :: "string option"
  body_requestedAmount :: "string option"

definition post_ships_apply ::
  "config \<Rightarrow> state \<Rightarrow> string \<Rightarrow> apply_body \<Rightarrow> string \<Rightarrow> int \<Rightarrow> error + state \<times> application" where
  "post_ships_apply cfg st sid body uuid now =
     (let requestAmount =
            (if truthy (body_requestAmount body) then body_requestAmount body
             else if truthy (body_requested_amount body) then body_requested_amount body
             else body_requestedAmount body)
      in case map_of (ships st) sid of
        None \<Rightarrow> Inl (NotFound ''Ship not found'')
      | Some s \<Rightarrow>
          if ship_status s \<noteq> Open then Inl InvalidState
          else if \<not> truthy (body_applicant body) \<or> \<not> truthy (body_projectName body)
          then Inl (InvalidInput ''applicant and projectName required'')
          else if \<not> isAddress cfg (str_or_empty (body_applicant body))
          then Inl (InvalidInput ''Invalid applicant address'')
          else
            (case (if truthy requestAmount then parseEther (str_or_empty requestAmount) else Some 0) of
               None \<Rightarrow> Inl InvalidAmount
             | Some requestWei \<Rightarrow>
                 let a = \<lparr>app_id = uuid,
                          app_shipId = ship_id s,
                          app_shipName = ship_name s,
                          app_applicant = toLowerCase (str_or_empty (body_applicant body)),
                          app_projectName = str_or_empty (body_projectName body),
                          app_description = str_or_empty (body_app_description body),
                          app_requestAmount = requestWei,
                          app_links = (case body_links body of None \<Rightarrow> [] | Some l \<Rightarrow> l),
                          app_status = Pending,
                          app_allocation = 0,
                          app_createdAt = now\<rparr>
                 in Inr (st\<lparr>applications := AList.update (app_id a) a (applications st)\<rparr>, a)))"

subsection \<open>POST /applications/:id/allocate\<close>

record allocate_body =
  body_alloc_captain :: "string option"
  body_amount :: "string option"
  body_approved :: "json option"

text \<open>
  The response of a decision: the message of a rejection, or the new allocation with the
  remaining budget of the ship (\<open>shipBudgetRemaining\<close>); both carry the application.
\<close>

datatype decision =
    Rejection application
  | Allocated allocation application int

definition post_applications_allocate ::
  "state \<Rightarrow> string \<Rightarrow> allocate_body \<Rightarrow> string \<Rightarrow> int \<Rightarrow> error + state \<times> decision" where
  "post_applications_allocate st aid body uuid now =
     (case map_of (applications st) aid of
        None \<Rightarrow> Inl (NotFound ''Application not found'')
      | Some application \<Rightarrow>
         (case map_of (ships st) (app_shipId application) of
            None \<Rightarrow> Inl (NotFound ''Ship not found'')
          | Some s \<Rightarrow>
              if map_option toLowerCase (body_alloc_captain body) \<noteq> Some (ship_captain s)
              then Inl Forbidden
              else if body_approved body = Some (JBool False)
              then
                let application' = application\<lparr>app_status := Rejected\<rparr>
                in Inr (st\<lparr>applications :=
                            AList.update (app_id application') application' (applications st)\<rparr>,
                        Rejection application')
              else
                (case parseEther (if truthy (body_amount body)
                                  then str_or_empty (body_amount body) else ''0'') of
                   None \<Rightarrow> Inl InvalidAmount
                 | Some allocWei \<Rightarrow>
                     let remaining = ship_budget s - ship_allocated s
                     in if allocWei > remaining
                        then Inl (InsufficientBudget remaining allocWei)
                        else
                          let a = \<lparr>alloc_id = uuid,
                                   alloc_shipId = ship_id s,
                                   alloc_applicationId = app_id application,
                                   alloc_projectName = app_projectName application,
                                   alloc_applicant = app_applicant application,
                                   alloc_amount = allocWei,
                                   alloc_distributed = False,
                                   alloc_createdAt = now,
                                   alloc_distributedAt = None,
                                   alloc_txHash = None\<rparr>;
                              application' = application\<lparr>app_status := Approved,
                                                         app_allocation := allocWei\<rparr>;
                              s' = s\<lparr>ship_allocated := ship_allocated s + allocWei\<rparr>
                          in Inr (st\<lparr>allocations := AList.update (alloc_id a) a (allocations st),
                                      applications :=
                                        AList.update (app_id application') application' (applications st),
                                      ships := AList.update (ship_id s') s' (ships st)\<rparr>,
                                  Allocated a application' (remaining - allocWei)))))"

subsection \<open>POST /ships/:id/distribute\<close>

text \<open>
  \<open>sendTransaction\<close> is awaited once per pending allocation. Its outcome is an input:
  \<open>send alloc value\<close> is \<open>None\<close> when the call throws, and otherwise the hash of the submitted
  transaction with the clock reading taken after the call.
\<close>

type_synonym sender = "allocation \<Rightarrow> int \<Rightarrow> (string \<times> int) option"

definition pendingAllocations :: "state \<Rightarrow> ship \<Rightarrow> allocation list" where
  "pendingAllocations st s =
     filter (\<lambda>a. alloc_shipId a = ship_id s \<and> \<not> alloc_distributed a \<and> alloc_amount a > 0)
       (map snd (allocations st))"

definition netAmount :: "allocation \<Rightarrow> int" where
  "netAmount alloc = bigint_div (alloc_amount alloc * 95) 100"

text \<open>
  The payout loop. Besides the allocations map and the \<open>payouts\<close> array it returns the
  calls made to \<open>sendTransaction\<close> (recipient and value), in order.
\<close>

fun payout_loop ::
  "sender \<Rightarrow> allocation list \<Rightarrow> (string \<times> allocation) list \<Rightarrow> payout list \<Rightarrow> (string \<times> int) list
     \<Rightarrow> (string \<times> allocation) list \<times> payout list \<times> (string \<times> int) list" where
  "payout_loop send [] allocs payouts calls = (allocs, payouts, calls)"
| "payout_loop send (alloc # rest) allocs payouts calls =
     (case send alloc (netAmount alloc) of
        Some (hash, now) \<Rightarrow>
          let alloc' = alloc\<lparr>alloc_distributed := True,
                             alloc_distributedAt := Some now,
                             alloc_txHash := Some hash\<rparr>
          in payout_loop send rest (AList.update (alloc_id alloc') alloc' allocs)
               (payouts @ [\<lparr>payout_allocationId = alloc_id alloc',
                            payout_projectName = alloc_projectName alloc',
                            payout_applicant = alloc_applicant alloc',
                            payout_gross = alloc_amount alloc',
                            payout_net = netAmount alloc,
                            payout_txHash = hash\<rparr>])
               (calls @ [(alloc_applicant alloc, netAmount alloc)])
      | None \<Rightarrow>
          payout_loop send rest allocs payouts (calls @ [(alloc_applicant alloc, netAmount alloc)]))"

text \<open>
  The response of a distribution run: the record that is stored, the ship as reported,
  and (not part of the response) the \<open>sendTransaction\<close> calls that were made.
\<close>

record distribute_result =
  res_distribution :: distribution
  res_ship :: ship
  res_calls :: "(string \<times> int) list"

definition post_ships_distribute ::
  "config \<Rightarrow> state \<Rightarrow> string \<Rightarrow> sender \<Rightarrow> string \<Rightarrow> int \<Rightarrow> error + state \<times> distribute_result" where
  "post_ships_distribute cfg st sid send uuid now =
     (case map_of (ships st) sid of
        None \<Rightarrow> Inl (NotFound ''Ship not found'')
      | Some s \<Rightarrow>
          if \<not> getWallet cfg then Inl PaymentsUnavailable
          else
            let pending = pendingAllocations st s
            in if length pending = 0 then Inl NothingToDistribute
               else
                 let totalToDistribute = foldl (\<lambda>sum a. sum + alloc_amount a) 0 pending;
                     fee = bigint_div (totalToDistribute * FEE_PERCENT) 100;
                     netTotal = totalToDistribute - fee;
                     (allocs', payouts, calls) = payout_loop send pending (allocations st) [] [];
                     distributed' = ship_distributed s + netTotal;
                     s' = s\<lparr>ship_distributed := distributed',
                            ship_status := (if distributed' \<ge> ship_allocated s
                                            then Completed else Distributing)\<rparr>;
                     d = \<lparr>dist_id = uuid,
                          dist_shipId = ship_id s',
                          dist_shipName = ship_name s',
                          dist_totalGross = totalToDistribute,
                          dist_totalFee = fee,
                          dist_totalNet = netTotal,
                          dist_payouts = payouts,
                          dist_createdAt = now\<rparr>
                 in Inr (st\<lparr>allocations := allocs',
                             ships := AList.update (ship_id s') s' (ships st),
                             distributions := AList.update (dist_id d) d (distributions st)\<rparr>,
                         \<lparr>res_distribution = d, res_ship = s', res_calls = calls\<rparr>))"

subsection \<open>Runs of the server\<close>

datatype request =
    CreateShip ship_body string int
  | ListShips "ship_status option" int
  | Fund string "string option" rpc
  | Apply string apply_body string int
  | Allocate string allocate_body string int
  | Distribute string sender string int

definition keep :: "state \<Rightarrow> error + state \<times> 'a \<Rightarrow> state" where
  "keep st r = (case r of Inl _ \<Rightarrow> st | Inr (st', _) \<Rightarrow> st')"

fun step :: "config \<Rightarrow> state \<Rightarrow> request \<Rightarrow> state" where
  "step cfg st (CreateShip body uuid now) = keep st (post_ships cfg st body uuid now)"
| "step cfg st (ListShips status now) = fst (get_ships st status now)"
| "step cfg st (Fund sid txHash chain) = keep st (post_ships_fund cfg st sid txHash chain)"
| "step cfg st (Apply sid body uuid now) = keep st (post_ships_apply cfg st sid body uuid now)"
| "step cfg st (Allocate aid body uuid now) = keep st (post_applications_allocate st aid body uuid now)"
| "step cfg st (Distribute sid send uuid now) = keep st (post_ships_distribute cfg st sid send uuid now)"

fun run :: "config \<Rightarrow> state \<Rightarrow> request list \<Rightarrow> state" where
  "run cfg st [] = st"
| "run cfg st (r # rs) = run cfg (step cfg st r) rs"

subsection \<open>Well-formed states\<close>

text \<open>
  What every state reached by the handlers satisfies: an object is stored under its own
  \<open>id\<close>, a captain address is stored in lower case, and for every ship
  \<open>0 \<le> distributed\<close> and \<open>allocated \<le> budget\<close>.
\<close>

definition ships_ok :: "(string \<times> ship) list \<Rightarrow> bool" where
  "ships_ok m = (\<forall>p\<in>set m. ship_id (snd p) = fst p
      \<and> toLowerCase (ship_captain (snd p)) = ship_captain (snd p)
      \<and> 0 \<le> ship_distributed (snd p) \<and> ship_allocated (snd p) \<le> ship_budget (snd p))"

definition apps_ok :: "(string \<times> application) list \<Rightarrow> bool" where
  "apps_ok m = (\<forall>p\<in>set m. app_id (snd p) = fst p)"

definition allocs_ok :: "(string \<times> allocation) list \<Rightarrow> bool" where
  "allocs_ok m = (\<forall>p\<in>set m. alloc_id (snd p) = fst p)"

definition wf_state :: "state \<Rightarrow> bool" where
  "wf_state st = (ships_ok (ships st) \<and> apps_ok (applications st) \<and> allocs_ok (allocations st))"

subsection \<open>Notions of the specification\<close>

text \<open>
  Case-insensitive equality of the caller's address with an approver address, and the text
  that \<open>(amount || '0').toString()\<close> hands to \<open>parseEther\<close>.
\<close>

definition same_address :: "string option \<Rightarrow> string \<Rightarrow> bool" where
  "same_address actor approver =
     (case actor of None \<Rightarrow> False | Some c \<Rightarrow> toLowerCase c = toLowerCase approver)"

definition amount_text :: "allocate_body \<Rightarrow> string" where
  "amount_text body = (if truthy (body_amount body) then str_or_empty (body_amount body) else ''0'')"

subsection \<open>Keys of the maps\<close>

text \<open>A JavaScript \<open>Map\<close> holds a key once; so does every association list of a reachable state.\<close>

definition keys_ok :: "state \<Rightarrow> bool" where
  "keys_ok st = (distinct (map fst (ships st)) \<and> distinct (map fst (applications st))
     \<and> distinct (map fst (allocations st)))"

text \<open>Whether the transfer for an allocation goes through in a run with the given outcomes.\<close>

definition paid :: "sender \<Rightarrow> allocation \<Rightarrow> bool" where
  "paid send a = (send a (netAmount a) \<noteq> None)"

subsection \<open>Accounting of a ship against its allocations\<close>

text \<open>
  The amounts allocated to a ship and the amounts of its allocations that are marked
  distributed, summed over the allocations map.
\<close>

definition allocated_sum :: "(string \<times> allocation) list \<Rightarrow> string \<Rightarrow> int" where
  "allocated_sum al k =
     sum_list (map (\<lambda>p. if alloc_shipId (snd p) = k then alloc_amount (snd p) else 0) al)"

definition paid_sum :: "(string \<times> allocation) list \<Rightarrow> string \<Rightarrow> int" where
  "paid_sum al k =
     sum_list (map (\<lambda>p. if alloc_shipId (snd p) = k \<and> alloc_distributed (snd p)
                         then alloc_amount (snd p) else 0) al)"

definition alloc_entry_ok :: "(string \<times> ship) list \<Rightarrow> string \<times> allocation \<Rightarrow> bool" where
  "alloc_entry_ok sh p = (0 \<le> alloc_amount (snd p) \<and> alloc_shipId (snd p) \<in> fst ` set sh)"

subsection \<open>Requests that overlap\<close>

text \<open>
  The handlers of \<open>POST /ships\<close>, \<open>GET /ships\<close>, \<open>apply\<close> and \<open>allocate\<close> contain no
  \<open>await\<close>: each runs as one step. The handler of \<open>POST /ships/:id/distribute\<close> is
  \<open>async\<close>: it runs up to its first \<open>await sendTransaction\<close>, and each time the awaited
  transfer settles it runs on to the next \<open>await\<close>, or, after the last allocation of its
  snapshot, to its end. Between two such steps other requests are served, among them
  further distribution calls.

  A distribution run that has started and not ended is a \<open>task\<close>: the allocations of its
  snapshot that are not settled yet (the transfer of the first one is awaited), the totals
  computed at the start, and the payouts pushed so far. The objects held by the run are
  the entries stored under their \<open>id\<close>, \<open>uuidv4\<close> not returning an identifier in use:
  the task keeps the id of its ship and reads the stored ship when it ends, as line 383
  reads \<open>ship.distributed\<close> and \<open>ship.allocated\<close> of the object at that time. The
  fields of an allocation that the loop reads (\<open>amount\<close>, \<open>applicant\<close>, \<open>projectName\<close>,
  \<open>id\<close>) are never written after its creation, and the loop overwrites the three fields
  it sets.

  The handler of \<open>POST /ships/:id/fund\<close> is \<open>async\<close> as well, but both its awaits come
  before its only write, which adds the value to the budget the object has at that time;
  a ship is never removed. Its effect is that of \<open>post_ships_fund\<close> at the time of the
  write, and it is served as one step there.
\<close>

record task =
  task_shipId :: string
  task_pending :: "allocation list"
  task_total :: int
  task_fee :: int
  task_netTotal :: int
  task_payouts :: "payout list"

text \<open>Lines 337 to 355: the checks, the snapshot and the totals.\<close>

definition distribute_start :: "config \<Rightarrow> state \<Rightarrow> string \<Rightarrow> error + task" where
  "distribute_start cfg st sid =
     (case map_of (ships st) sid of
        None \<Rightarrow> Inl (NotFound ''Ship not found'')
      | Some s \<Rightarrow>
          if \<not> getWallet cfg then Inl PaymentsUnavailable
          else
            let pending = pendingAllocations st s
            in if length pending = 0 then Inl NothingToDistribute
               else
                 let totalToDistribute = foldl (\<lambda>sum a. sum + alloc_amount a) 0 pending;
                     fee = bigint_div (totalToDistribute * FEE_PERCENT) 100;
                     netTotal = totalToDistribute - fee
                 in Inr \<lparr>task_shipId = ship_id s, task_pending = pending,
                         task_total = totalToDistribute, task_fee = fee,
                         task_netTotal = netTotal, task_payouts = []\<rparr>)"

text \<open>
  Lines 361 to 380, after the awaited transfer of the first unsettled allocation has
  settled: with a transaction hash (and the clock reading) the allocation is flagged and a
  payout is pushed, with \<open>None\<close> (the call threw) nothing is written.
\<close>

definition transfer_settled :: "state \<Rightarrow> task \<Rightarrow> (string \<times> int) option \<Rightarrow> state \<times> task" where
  "transfer_settled st t outcome =
     (case task_pending t of
        [] \<Rightarrow> (st, t)
      | alloc # rest \<Rightarrow>
          (case outcome of
             Some (hash, now) \<Rightarrow>
               let alloc' = alloc\<lparr>alloc_distributed := True,
                                  alloc_distributedAt := Some now,
                                  alloc_txHash := Some hash\<rparr>
               in (st\<lparr>allocations := AList.update (alloc_id alloc') alloc' (allocations st)\<rparr>,
                   t\<lparr>task_pending := rest,
                     task_payouts := task_payouts t @
                       [\<lparr>payout_allocationId = alloc_id alloc',
                         payout_projectName = alloc_projectName alloc',
                         payout_applicant = alloc_applicant alloc',
                         payout_gross = alloc_amount alloc',
                         payout_net = netAmount alloc,
                         payout_txHash = hash\<rparr>]\<rparr>)
           | None \<Rightarrow> (st, t\<lparr>task_pending := rest\<rparr>)))"

text \<open>Lines 383 to 402: the ship's total and status, and the distribution record.\<close>

definition distribute_finish :: "state \<Rightarrow> task \<Rightarrow> string \<Rightarrow> int \<Rightarrow> state" where
  "distribute_finish st t uuid now =
     (case map_of (ships st) (task_shipId t) of
        None \<Rightarrow> st
      | Some s \<Rightarrow>
          let distributed' = ship_distributed s + task_netTotal t;
              s' = s\<lparr>ship_distributed := distributed',
                     ship_status := (if distributed' \<ge> ship_allocated s
                                     then Completed else Distributing)\<rparr>;
              d = \<lparr>dist_id = uuid,
                   dist_shipId = ship_id s',
                   dist_shipName = ship_name s',
                   dist_totalGross = task_total t,
                   dist_totalFee = task_fee t,
                   dist_totalNet = task_netTotal t,
                   dist_payouts = task_payouts t,
                   dist_createdAt = now\<rparr>
          in st\<lparr>ships := AList.update (ship_id s') s' (ships st),
                 distributions := AList.update (dist_id d) d (distributions st)\<rparr>)"

text \<open>
  The server with its distribution runs in flight (a run that has ended leaves \<open>None\<close> in
  its place) and the \<open>sendTransaction\<close> calls made so far (recipient and value).
\<close>

record cstate =
  server :: state
  tasks :: "task option list"
  sent :: "(string \<times> int) list"

definition init_cstate :: cstate where
  "init_cstate = \<lparr>server = init_state, tasks = [], sent = []\<rparr>"

text \<open>
  An event is a request served as one step (for a distribution call: a run during which no
  other request is served), the start of a distribution run, or the settling of the
  transfer that the run at a position of \<open>tasks\<close> awaits, with the inputs of the end of
  the run (\<open>uuidv4()\<close>, \<open>Date.now()\<close>) should it be the last one.
\<close>

datatype event =
    Serve request
  | Start string
  | Settle nat "(string \<times> int) option" string int

definition next_call :: "task \<Rightarrow> (string \<times> int) list" where
  "next_call t = (case task_pending t of [] \<Rightarrow> [] | a # _ \<Rightarrow> [(alloc_applicant a, netAmount a)])"

definition calls_of :: "config \<Rightarrow> state \<Rightarrow> request \<Rightarrow> (string \<times> int) list" where
  "calls_of cfg st r =
     (case r of
        Distribute sid send uuid now \<Rightarrow>
          (case post_ships_distribute cfg st sid send uuid now of
             Inl _ \<Rightarrow> []
           | Inr (_, res) \<Rightarrow> res_calls res)
      | _ \<Rightarrow> [])"

fun cstep :: "config \<Rightarrow> cstate \<Rightarrow> event \<Rightarrow> cstate" where
  "cstep cfg cs (Serve r) =
     cs\<lparr>server := step cfg (server cs) r, sent := sent cs @ calls_of cfg (server cs) r\<rparr>"
| "cstep cfg cs (Start sid) =
     (case distribute_start cfg (server cs) sid of
        Inl _ \<Rightarrow> cs
      | Inr t \<Rightarrow> cs\<lparr>tasks := tasks cs @ [Some t], sent := sent cs @ next_call t\<rparr>)"
| "cstep cfg cs (Settle i outcome uuid now) =
     (if i < length (tasks cs)
      then (case tasks cs ! i of
              None \<Rightarrow> cs
            | Some t \<Rightarrow>
                (case transfer_settled (server cs) t outcome of
                   (st', t') \<Rightarrow>
                     if task_pending t' = []
                     then cs\<lparr>server := distribute_finish st' t' uuid now,
                             tasks := (tasks cs)[i := None]\<rparr>
                     else cs\<lparr>server := st', tasks := (tasks cs)[i := Some t'],
                             sent := sent cs @ next_call t'\<rparr>))
      else cs)"

fun crun :: "config \<Rightarrow> cstate \<Rightarrow> event list \<Rightarrow> cstate" where
  "crun cfg cs [] = cs"
| "crun cfg cs (e # es) = crun cfg (cstep cfg cs e) es"

subsection \<open>Conditions on a run\<close>

text \<open>
  The allocation that a decision creates, if it creates one; whether no distribution run in
  flight is for a given ship.
\<close>

definition approved_of :: "error + state \<times> decision \<Rightarrow> allocation option" where
  "approved_of r =
     (case r of
        Inl _ \<Rightarrow> None
      | Inr (_, d) \<Rightarrow> (case d of Rejection _ \<Rightarrow> None | Allocated a _ _ \<Rightarrow> Some a))"

definition idle :: "task option list \<Rightarrow> string \<Rightarrow> bool" where
  "idle ts sid = (\<forall>x\<in>set ts. case x of None \<Rightarrow> True | Some t \<Rightarrow> task_shipId t \<noteq> sid)"

text \<open>
  A run is calm when every ship and every allocation it creates gets an identifier that is
  not in use, and no distribution run starts for a ship while another one for that ship is
  in flight.
\<close>

fun fresh_request :: "config \<Rightarrow> state \<Rightarrow> request \<Rightarrow> bool" where
  "fresh_request cfg st (CreateShip body uuid now) =
     (case post_ships cfg st body uuid now of
        Inl _ \<Rightarrow> True
      | Inr _ \<Rightarrow> uuid \<notin> fst ` set (ships st))"
| "fresh_request cfg st (Allocate aid body uuid now) =
     (case approved_of (post_applications_allocate st aid body uuid now) of
        None \<Rightarrow> True
      | Some _ \<Rightarrow> uuid \<notin> fst ` set (allocations st))"
| "fresh_request cfg st (ListShips status now) = True"
| "fresh_request cfg st (Fund sid txHash chain) = True"
| "fresh_request cfg st (Apply sid body uuid now) = True"
| "fresh_request cfg st (Distribute sid send uuid now) = True"

fun calm_step :: "config \<Rightarrow> cstate \<Rightarrow> event \<Rightarrow> bool" where
  "calm_step cfg cs (Serve r) =
     (fresh_request cfg (server cs) r
      \<and> (case r of
            Distribute sid send uuid now \<Rightarrow>
              (case post_ships_distribute cfg (server cs) sid send uuid now of
                 Inl _ \<Rightarrow> True
               | Inr _ \<Rightarrow> idle (tasks cs) sid)
          | _ \<Rightarrow> True))"
| "calm_step cfg cs (Start sid) =
     (case distribute_start cfg (server cs) sid of
        Inl _ \<Rightarrow> True
      | Inr _ \<Rightarrow> idle (tasks cs) sid)"
| "calm_step cfg cs (Settle i outcome uuid now) = True"

fun calm :: "config \<Rightarrow> cstate \<Rightarrow> event list \<Rightarrow> bool" where
  "calm cfg cs [] = True"
| "calm cfg cs (e # es) = (calm_step cfg cs e \<and> calm cfg (cstep cfg cs e) es)"

text \<open>
  A run is benign when it is calm, no allocation it creates has a negative amount, and no
  transfer of its distribution runs fails.
\<close>

fun paying_step :: "config \<Rightarrow> cstate \<Rightarrow> event \<Rightarrow> bool" where
  "paying_step cfg cs (Serve r) =
     (case r of
        Allocate aid body uuid now \<Rightarrow>
          (case approved_of (post_applications_allocate (server cs) aid body uuid now) of
             None \<Rightarrow> True
           | Some a \<Rightarrow> 0 \<le> alloc_amount a)
      | Distribute sid send uuid now \<Rightarrow>
          (case post_ships_distribute cfg (server cs) sid send uuid now of
             Inl _ \<Rightarrow> True
           | Inr _ \<Rightarrow>
               (case map_of (ships (server cs)) sid of
                  None \<Rightarrow> True
                | Some s \<Rightarrow> list_all (paid send) (pendingAllocations (server cs) s)))
      | _ \<Rightarrow> True)"
| "paying_step cfg cs (Start sid) = True"
| "paying_step cfg cs (Settle i outcome uuid now) =
     (i < length (tasks cs) \<and> tasks cs ! i \<noteq> None \<longrightarrow> outcome \<noteq> None)"

fun benign :: "config \<Rightarrow> cstate \<Rightarrow> event list \<Rightarrow> bool" where
  "benign cfg cs [] = True"
| "benign cfg cs (e # es) =
     (calm_step cfg cs e \<and> paying_step cfg cs e \<and> benign cfg (cstep cfg cs e) es)"

subsection \<open>Invariants of the runs\<close>

text \<open>
  In every run: the state is well formed, keys are held once, and the net total of a
  distribution run in flight is not negative.
\<close>

definition all_tasks :: "(task \<Rightarrow> bool) \<Rightarrow> task option list \<Rightarrow> bool" where
  "all_tasks P ts = (\<forall>t. Some t \<in> set ts \<longrightarrow> P t)"

definition winv :: "cstate \<Rightarrow> bool" where
  "winv cs = (wf_state (server cs) \<and> keys_ok (server cs)
     \<and> all_tasks (\<lambda>t. 0 \<le> task_netTotal t) (tasks cs))"

text \<open>
  In a calm run: every allocation that a distribution run in flight has still to settle is
  stored as the run selected it, with \<open>distributed = false\<close> and a positive amount, and
  belongs to the ship of the run; the amounts still to settle are within the total of the
  run, and its net total is; runs in flight are for different ships.
\<close>

definition task_ok :: "state \<Rightarrow> task \<Rightarrow> bool" where
  "task_ok st t =
     (task_pending t \<noteq> [] \<and> distinct (map alloc_id (task_pending t))
      \<and> (\<forall>a\<in>set (task_pending t).
            map_of (allocations st) (alloc_id a) = Some a \<and> \<not> alloc_distributed a
            \<and> alloc_shipId a = task_shipId t \<and> 0 < alloc_amount a)
      \<and> task_shipId t \<in> fst ` set (ships st)
      \<and> task_netTotal t \<le> task_total t
      \<and> sum_list (map alloc_amount (task_pending t)) \<le> task_total t)"

definition apart :: "task option list \<Rightarrow> bool" where
  "apart ts =
     (\<forall>i j t u. i < length ts \<and> j < length ts \<and> ts ! i = Some t \<and> ts ! j = Some u
        \<and> task_shipId t = task_shipId u \<longrightarrow> i = j)"

definition cinv :: "cstate \<Rightarrow> bool" where
  "cinv cs = (winv cs \<and> all_tasks (task_ok (server cs)) (tasks cs) \<and> apart (tasks cs))"

text \<open>
  In a benign run: the amounts that the distribution runs in flight for a ship have
  flagged so far, added to the ship's \<open>distributed\<close>, stay within the amounts of the
  ship's allocations that are marked distributed, and these within \<open>allocated\<close>.
\<close>

definition flagged :: "task option list \<Rightarrow> string \<Rightarrow> int" where
  "flagged ts k =
     sum_list (map (\<lambda>x. case x of
                          None \<Rightarrow> 0
                        | Some t \<Rightarrow> if task_shipId t = k
                                    then task_total t - sum_list (map alloc_amount (task_pending t))
                                    else 0) ts)"

definition ship_entry_ok ::
  "(string \<Rightarrow> int) \<Rightarrow> (string \<times> allocation) list \<Rightarrow> string \<times> ship \<Rightarrow> bool" where
  "ship_entry_ok off al p =
     (ship_distributed (snd p) + off (fst p) \<le> paid_sum al (fst p)
      \<and> allocated_sum al (fst p) \<le> ship_allocated (snd p))"

definition ledger_st :: "(string \<Rightarrow> int) \<Rightarrow> state \<Rightarrow> bool" where
  "ledger_st off st =
     ((\<forall>p\<in>set (allocations st). alloc_entry_ok (ships st) p)
      \<and> (\<forall>p\<in>set (ships st). ship_entry_ok off (allocations st) p))"

definition ledger_ok :: "cstate \<Rightarrow> bool" where
  "ledger_ok cs = ledger_st (flagged (tasks cs)) (server cs)"

subsection \<open>Example runs\<close>

text \<open>
  Concrete requests for the examples: one ship, funded by a verified transaction, one
  application to it, decisions on it and distribution runs in which the transfer goes
  through or throws. \<open>hex_address\<close> stands in for \<open>ethers.isAddress\<close> there
  (\<open>0x\<close> and 40 hexadecimal digits; checksums are not looked at).
\<close>

definition hex_address :: "string \<Rightarrow> bool" where
  "hex_address s = (length s = 42 \<and> take 2 s = ''0x''
     \<and> list_all (\<lambda>c. c \<in> set ''0123456789abcdefABCDEF'') (drop 2 s))"

definition demo_cfg :: config where
  "demo_cfg = \<lparr>TREASURY_ADDRESS = ''0xccD7200024A8B5708d381168ec2dB0DC587af83F'',
               TREASURY_PRIVATE_KEY = Some ''0x01'',
               isAddress = hex_address\<rparr>"

definition demo_captain :: string where
  "demo_captain = ''0xC0FFEE0000000000000000000000000000000001''"

definition demo_applicant :: string where
  "demo_applicant = ''0x00000000000000000000000000000000000000b2''"

definition demo_create :: request where
  "demo_create = CreateShip \<lparr>body_name = Some ''Builders'', body_description = None,
      body_criteria = None, body_durationDays = None, body_captain = Some demo_captain\<rparr>
      ''ship-1'' 1000"

definition demo_fund :: "nat \<Rightarrow> request" where
  "demo_fund wei = Fund ''ship-1'' (Some ''0xfeed'')
      (RpcResult (Some \<lparr>tx_to = Some ''0xccd7200024a8b5708d381168ec2db0dc587af83f'', tx_value = wei\<rparr>)
         (Some 1))"

definition demo_apply :: request where
  "demo_apply = Apply ''ship-1'' \<lparr>body_applicant = Some demo_applicant,
      body_projectName = Some ''Project'', body_app_description = None, body_links = None,
      body_requestAmount = None, body_requested_amount = None, body_requestedAmount = None\<rparr>
      ''app-1'' 1001"

definition demo_body :: "string option \<Rightarrow> json option \<Rightarrow> allocate_body" where
  "demo_body amount approved = \<lparr>body_alloc_captain = Some demo_captain, body_amount = amount,
      body_approved = approved\<rparr>"

definition demo_allocate :: "string option \<Rightarrow> string \<Rightarrow> request" where
  "demo_allocate amount uuid = Allocate ''app-1'' (demo_body amount (Some (JBool True))) uuid 1002"

definition demo_ship :: "int \<Rightarrow> int \<Rightarrow> int \<Rightarrow> ship_status \<Rightarrow> ship" where
  "demo_ship b a d status = \<lparr>ship_id = ''ship-1'', ship_name = ''Builders'', ship_description = [],
      ship_captain = ''0xc0ffee0000000000000000000000000000000001'', ship_criteria = [],
      ship_budget = b, ship_allocated = a, ship_distributed = d,
      ship_startDate = 1000, ship_endDate = 2592001000, ship_status = status,
      ship_createdAt = 1000\<rparr>"

definition demo_app :: "app_status \<Rightarrow> int \<Rightarrow> application" where
  "demo_app status a = \<lparr>app_id = ''app-1'', app_shipId = ''ship-1'', app_shipName = ''Builders'',
      app_applicant = demo_applicant, app_projectName = ''Project'', app_description = [],
      app_requestAmount = 0, app_links = [], app_status = status, app_allocation = a,
      app_createdAt = 1001\<rparr>"

definition demo_alloc :: "string \<Rightarrow> int \<Rightarrow> allocation" where
  "demo_alloc uuid amount = \<lparr>alloc_id = uuid, alloc_shipId = ''ship-1'', alloc_applicationId = ''app-1'',
      alloc_projectName = ''Project'', alloc_applicant = demo_applicant, alloc_amount = amount,
      alloc_distributed = False, alloc_createdAt = 1002, alloc_distributedAt = None,
      alloc_txHash = None\<rparr>"

definition funded_trace :: "request list" where
  "funded_trace = [demo_create, demo_fund 1000000000000000000, demo_apply]"

definition allocated_trace :: "request list" where
  "allocated_trace = funded_trace @ [demo_allocate (Some ''1'') ''alloc-1'']"

definition failing_send :: sender where
  "failing_send a v = None"

definition paying_send :: sender where
  "paying_send a v = Some (''0xpaid'', 1010)"

definition micro_trace :: "request list" where
  "micro_trace = funded_trace @ [demo_allocate (Some ''0.000000000001'') ''alloc-1'']"

definition paid_trace :: "request list" where
  "paid_trace = allocated_trace @ [Distribute ''ship-1'' paying_send ''dist-1'' 1003]"

definition unpaid_trace :: "request list" where
  "unpaid_trace = allocated_trace @ [Distribute ''ship-1'' failing_send ''dist-1'' 1003]"

definition demo_dist :: "payout list \<Rightarrow> distribution" where
  "demo_dist ps = \<lparr>dist_id = ''dist-1'', dist_shipId = ''ship-1'', dist_shipName = ''Builders'',
      dist_totalGross = 1000000000000000000, dist_totalFee = 50000000000000000,
      dist_totalNet = 950000000000000000, dist_payouts = ps, dist_createdAt = 1003\<rparr>"

definition demo_payout :: payout where
  "demo_payout = \<lparr>payout_allocationId = ''alloc-1'', payout_projectName = ''Project'',
      payout_applicant = demo_applicant, payout_gross = 1000000000000000000,
      payout_net = 950000000000000000, payout_txHash = ''0xpaid''\<rparr>"

definition double_trace :: "request list" where
  "double_trace = [demo_create, demo_fund 2000000000000000000, demo_apply,
                   demo_allocate (Some ''1'') ''alloc-1'']"

definition negative_trace :: "request list" where
  "negative_trace = funded_trace @ [demo_allocate (Some ''-1'') ''alloc-1'']"

text \<open>
  Runs with two allocations of 0.25 and 0.5 ether to the application: one in which a
  funding request is served while a distribution call is in flight, and one in which a
  second distribution call starts before the first has settled a transfer. \<open>demo_task\<close>
  is a distribution run of these examples, \<open>demo_flagged\<close> an allocation after its
  transfer, \<open>demo_paid_out\<close> its payout entry.
\<close>

definition pair_trace :: "request list" where
  "pair_trace = funded_trace @ [demo_allocate (Some ''0.25'') ''alloc-1'',
                                demo_allocate (Some ''0.5'') ''alloc-2'']"

definition interleaved_trace :: "event list" where
  "interleaved_trace = map Serve pair_trace @
     [Start ''ship-1'', Serve (demo_fund 1000000000000000000),
      Settle 0 (Some (''0xaa'', 1010)) ''dist-1'' 1011]"

definition settled_trace :: "event list" where
  "settled_trace = interleaved_trace @ [Settle 0 (Some (''0xbb'', 1012)) ''dist-1'' 1013]"

definition overlap_trace :: "event list" where
  "overlap_trace = map Serve pair_trace @
     [Start ''ship-1'', Start ''ship-1'',
      Settle 0 (Some (''0xaa'', 1010)) ''dist-1'' 1011,
      Settle 0 (Some (''0xbb'', 1012)) ''dist-1'' 1013]"

definition doubled_trace :: "event list" where
  "doubled_trace = overlap_trace @
     [Settle 1 (Some (''0xcc'', 1014)) ''dist-2'' 1015,
      Settle 1 (Some (''0xdd'', 1016)) ''dist-2'' 1017]"

definition demo_task :: "allocation list \<Rightarrow> payout list \<Rightarrow> task" where
  "demo_task ps pays = \<lparr>task_shipId = ''ship-1'', task_pending = ps,
      task_total = 750000000000000000, task_fee = 37500000000000000,
      task_netTotal = 712500000000000000, task_payouts = pays\<rparr>"

definition demo_flagged :: "string \<Rightarrow> int \<Rightarrow> string \<Rightarrow> int \<Rightarrow> allocation" where
  "demo_flagged uuid amount hash now =
     (demo_alloc uuid amount)\<lparr>alloc_distributed := True, alloc_distributedAt := Some now,
                              alloc_txHash := Some hash\<rparr>"

definition demo_paid_out :: "string \<Rightarrow> int \<Rightarrow> int \<Rightarrow> string \<Rightarrow> payout" where
  "demo_paid_out uuid gross net hash = \<lparr>payout_allocationId = uuid, payout_projectName = ''Project'',
      payout_applicant = demo_applicant, payout_gross = gross, payout_net = net,
      payout_txHash = hash\<rparr>"

section \<open>Basic facts\<close>

lemma bigint_div_nonneg: "0 \<le> a \<Longrightarrow> 0 < b \<Longrightarrow> bigint_div a b = a div b"
  by (cases "a = 0") (simp_all add: bigint_div_def)

lemma lower_char_idem: "lower_char (lower_char c) = lower_char c"
  by (simp add: lower_char_def)

lemma toLowerCase_idem: "toLowerCase (toLowerCase s) = toLowerCase s"
  by (simp add: toLowerCase_def lower_char_idem)

lemma update_pred:
  "\<forall>p\<in>set al. Q p \<Longrightarrow> Q (k, v) \<Longrightarrow> \<forall>p\<in>set (AList.update k v al). Q p"
  by (induction al) auto

lemma foldl_amounts:
  "foldl (\<lambda>sum a. sum + alloc_amount a) z ps = z + sum_list (map alloc_amount ps)"
  by (induction ps arbitrary: z) simp_all

lemma ships_ok_update:
  "ships_ok m \<Longrightarrow> ship_id s = k \<Longrightarrow> toLowerCase (ship_captain s) = ship_captain s \<Longrightarrow>
   0 \<le> ship_distributed s \<Longrightarrow> ship_allocated s \<le> ship_budget s \<Longrightarrow>
   ships_ok (AList.update k s m)"
  unfolding ships_ok_def by (rule update_pred) simp_all

lemma ships_ok_lookup:
  "ships_ok m \<Longrightarrow> map_of m k = Some s \<Longrightarrow>
   ship_id s = k \<and> toLowerCase (ship_captain s) = ship_captain s \<and>
   0 \<le> ship_distributed s \<and> ship_allocated s \<le> ship_budget s"
  unfolding ships_ok_def by (auto dest!: map_of_SomeD)

lemma apps_ok_update: "apps_ok m \<Longrightarrow> app_id a = k \<Longrightarrow> apps_ok (AList.update k a m)"
  unfolding apps_ok_def by (rule update_pred) simp_all

lemma apps_ok_lookup: "apps_ok m \<Longrightarrow> map_of m k = Some a \<Longrightarrow> app_id a = k"
  unfolding apps_ok_def by (auto dest!: map_of_SomeD)

lemma allocs_ok_update: "allocs_ok m \<Longrightarrow> alloc_id a = k \<Longrightarrow> allocs_ok (AList.update k a m)"
  unfolding allocs_ok_def by (rule update_pred) simp_all

lemma allocs_ok_lookup: "allocs_ok m \<Longrightarrow> map_of m k = Some a \<Longrightarrow> alloc_id a = k"
  unfolding allocs_ok_def by (auto dest!: map_of_SomeD)

lemma wf_post_ships:
  "wf_state st \<Longrightarrow> post_ships cfg st body uuid now = Inr (st', r) \<Longrightarrow> wf_state st'"
  by (auto simp: post_ships_def wf_state_def Let_def toLowerCase_idem
           split: if_splits intro!: ships_ok_update)

lemma close_expired_ok:
  "ships_ok m \<Longrightarrow> \<forall>s\<in>set ss. toLowerCase (ship_captain s) = ship_captain s
      \<and> 0 \<le> ship_distributed s \<and> ship_allocated s \<le> ship_budget s \<Longrightarrow>
   ships_ok (close_expired now ss m)"
proof (induction ss arbitrary: m)
  case Nil
  then show ?case by simp
next
  case (Cons s ss)
  from Cons.prems have rest: "\<forall>s\<in>set ss. toLowerCase (ship_captain s) = ship_captain s
      \<and> 0 \<le> ship_distributed s \<and> ship_allocated s \<le> ship_budget s"
    by simp
  from Cons.prems have "ships_ok (AList.update (ship_id s) (s\<lparr>ship_status := Closed\<rparr>) m)"
    by (intro ships_ok_update) simp_all
  from Cons.IH [OF this rest] Cons.IH [OF Cons.prems(1) rest] show ?case by simp
qed

lemma wf_get_ships: "wf_state st \<Longrightarrow> wf_state (fst (get_ships st status now))"
proof -
  assume wf: "wf_state st"
  then have "\<forall>s\<in>set (map snd (ships st)). toLowerCase (ship_captain s) = ship_captain s
      \<and> 0 \<le> ship_distributed s \<and> ship_allocated s \<le> ship_budget s"
    by (auto simp: wf_state_def ships_ok_def)
  with wf have "ships_ok (close_expired now (map snd (ships st)) (ships st))"
    by (intro close_expired_ok) (simp_all add: wf_state_def)
  with wf show ?thesis by (simp add: get_ships_def wf_state_def Let_def)
qed

lemma wf_post_ships_fund:
  assumes "wf_state st" "post_ships_fund cfg st sid txHash chain = Inr (st', r)"
  shows "wf_state st'"
proof -
  from assms(2) obtain s where s: "map_of (ships st) sid = Some s"
    by (auto simp: post_ships_fund_def split: option.splits)
  from assms(2) s have r: "ships st' = AList.update (ship_id r) r (ships st)"
    "applications st' = applications st" "allocations st' = allocations st"
    "ship_id r = ship_id s" "ship_captain r = ship_captain s"
    "ship_distributed r = ship_distributed s" "ship_allocated r = ship_allocated s"
    "ship_budget s \<le> ship_budget r"
    by (auto simp: post_ships_fund_def Let_def split: option.splits if_splits rpc.splits)
  from assms(1) s have "ship_id s = sid \<and> toLowerCase (ship_captain s) = ship_captain s \<and>
     0 \<le> ship_distributed s \<and> ship_allocated s \<le> ship_budget s"
    by (intro ships_ok_lookup) (simp_all add: wf_state_def)
  with assms(1) r have "ships_ok (ships st')"
    by (simp add: wf_state_def ships_ok_update)
  with assms(1) show ?thesis by (simp add: wf_state_def r)
qed

lemma wf_post_ships_apply:
  "wf_state st \<Longrightarrow> post_ships_apply cfg st sid body uuid now = Inr (st', r) \<Longrightarrow> wf_state st'"
  by (auto simp: post_ships_apply_def wf_state_def Let_def
           split: option.splits if_splits intro!: apps_ok_update)

lemma wf_post_applications_allocate:
  assumes "wf_state st" "post_applications_allocate st aid body uuid now = Inr (st', r)"
  shows "wf_state st'"
proof -
  from assms(2) obtain app s where app: "map_of (applications st) aid = Some app"
    and s: "map_of (ships st) (app_shipId app) = Some s"
    by (auto simp: post_applications_allocate_def split: option.splits)
  from assms(1) s have sok: "ship_id s = app_shipId app \<and> toLowerCase (ship_captain s) = ship_captain s \<and>
     0 \<le> ship_distributed s \<and> ship_allocated s \<le> ship_budget s"
    by (intro ships_ok_lookup) (simp_all add: wf_state_def)
  from assms(2) app s sok assms(1) show ?thesis
    by (auto simp: post_applications_allocate_def wf_state_def Let_def
             split: option.splits if_splits
             intro!: apps_ok_update allocs_ok_update ships_ok_update)
qed

lemma payout_loop_allocs_ok:
  "allocs_ok allocs \<Longrightarrow> allocs_ok (fst (payout_loop send ps allocs payouts calls))"
proof (induction ps arbitrary: allocs payouts calls)
  case Nil
  then show ?case by simp
next
  case (Cons a ps)
  show ?case
  proof (cases "send a (netAmount a)")
    case None
    with Cons show ?thesis by simp
  next
    case (Some ht)
    obtain h t where ht: "ht = (h, t)" by (cases ht)
    from Cons.prems have "allocs_ok (AList.update (alloc_id a)
        (a\<lparr>alloc_distributed := True, alloc_distributedAt := Some t, alloc_txHash := Some h\<rparr>) allocs)"
      by (intro allocs_ok_update) simp_all
    from Cons.IH [OF this] Some ht show ?thesis by simp
  qed
qed

lemma pending_total_nonneg:
  "0 \<le> foldl (\<lambda>sum a. sum + alloc_amount a) 0 (pendingAllocations st s)"
  unfolding foldl_amounts pendingAllocations_def
  by (auto intro!: sum_list_nonneg)

lemma net_total_nonneg: "0 \<le> t \<Longrightarrow> 0 \<le> t - bigint_div (t * FEE_PERCENT) 100"
  by (simp add: bigint_div_nonneg FEE_PERCENT_def)

lemma wf_post_ships_distribute:
  assumes "wf_state st" "post_ships_distribute cfg st sid send uuid now = Inr (st', r)"
  shows "wf_state st'"
proof -
  from assms(2) obtain s where s: "map_of (ships st) sid = Some s"
    by (auto simp: post_ships_distribute_def split: option.splits)
  let ?t = "foldl (\<lambda>sum a. sum + alloc_amount a) 0 (pendingAllocations st s)"
  let ?s' = "s\<lparr>ship_distributed := ship_distributed s + (?t - bigint_div (?t * FEE_PERCENT) 100),
              ship_status := (if ship_distributed s + (?t - bigint_div (?t * FEE_PERCENT) 100) \<ge> ship_allocated s
                              then Completed else Distributing)\<rparr>"
  from assms(2) s have st': "ships st' = AList.update (ship_id s) ?s' (ships st)"
    "allocations st' = fst (payout_loop send (pendingAllocations st s) (allocations st) [] [])"
    "applications st' = applications st"
    by (auto simp: post_ships_distribute_def Let_def split: if_splits prod.splits)
  from assms(1) s have sok: "ship_id s = sid" "toLowerCase (ship_captain s) = ship_captain s"
    "0 \<le> ship_distributed s" "ship_allocated s \<le> ship_budget s"
    by (auto simp: wf_state_def dest!: ships_ok_lookup)
  have "0 \<le> ?t - bigint_div (?t * FEE_PERCENT) 100"
    by (rule net_total_nonneg) (rule pending_total_nonneg)
  with sok assms(1) have "ships_ok (ships st')"
    unfolding st' by (intro ships_ok_update) (simp_all add: wf_state_def)
  moreover from assms(1) have "allocs_ok (allocations st')"
    unfolding st' by (intro payout_loop_allocs_ok) (simp add: wf_state_def)
  ultimately show ?thesis using assms(1) by (simp add: wf_state_def st')
qed

lemma wf_keep:
  "wf_state st \<Longrightarrow> (\<And>st' x. r = Inr (st', x) \<Longrightarrow> wf_state st') \<Longrightarrow> wf_state (keep st r)"
  by (auto simp: keep_def split: sum.splits)

lemma wf_step: "wf_state st \<Longrightarrow> wf_state (step cfg st r)"
  by (cases r)
     (auto intro!: wf_keep wf_get_ships
           elim: wf_post_ships wf_post_ships_fund wf_post_ships_apply
                 wf_post_applications_allocate wf_post_ships_distribute)

lemma wf_run: "wf_state st \<Longrightarrow> wf_state (run cfg st rs)"
  by (induction rs arbitrary: st) (simp_all add: wf_step)

lemma wf_init: "wf_state init_state"
  by (simp add: wf_state_def init_state_def ships_ok_def apps_ok_def allocs_ok_def)

lemma wf_reachable: "wf_state (run cfg init_state rs)"
  by (rule wf_run) (rule wf_init)

lemma demo_lower:
  "toLowerCase demo_captain = ''0xc0ffee0000000000000000000000000000000001''"
  "toLowerCase demo_applicant = demo_applicant"
  "toLowerCase ''0xc0ffee0000000000000000000000000000000001'' = ''0xc0ffee0000000000000000000000000000000001''"
  "toLowerCase ''0xccd7200024a8b5708d381168ec2db0dc587af83f'' = ''0xccd7200024a8b5708d381168ec2db0dc587af83f''"
  "toLowerCase ''0xccD7200024A8B5708d381168ec2dB0DC587af83F'' = ''0xccd7200024a8b5708d381168ec2db0dc587af83f''"
  by code_simp+

lemma demo_addresses: "hex_address demo_captain" "hex_address demo_applicant"
  by code_simp+

lemma demo_nonempty: "demo_captain \<noteq> []" "demo_applicant \<noteq> []"
  by (simp_all add: demo_captain_def demo_applicant_def)

lemmas demo_defs = demo_cfg_def demo_create_def demo_fund_def
  demo_apply_def demo_body_def demo_allocate_def demo_ship_def demo_app_def demo_alloc_def
  demo_lower demo_addresses demo_nonempty

lemma parseEther_0: "parseEther ''0'' = Some 0"
  by code_simp

lemma parseEther_1: "parseEther ''1'' = Some 1000000000000000000"
  by code_simp

lemma parseEther_minus_1: "parseEther ''-1'' = Some (- 1000000000000000000)"
  by code_simp

lemma parseEther_bad: "parseEther ''1e18'' = None"
  by code_simp

lemma parseEther_micro: "parseEther ''0.000000000001'' = Some 1000000"
  by code_simp

lemmas parse_simps = parseEther_0 parseEther_1 parseEther_minus_1 parseEther_bad parseEther_micro

lemmas eval_defs = init_state_def keep_def post_ships_def post_ships_fund_def post_ships_apply_def
  post_applications_allocate_def truthy_def str_or_empty_def
  parse_simps Let_def

lemma demo_funded:
  "run demo_cfg init_state funded_trace =
   \<lparr>ships = [(''ship-1'', demo_ship 1000000000000000000 0 0 Open)],
    applications = [(''app-1'', demo_app Pending 0)],
    allocations = [], distributions = []\<rparr>"
  by (simp add: funded_trace_def demo_defs eval_defs)

lemma demo_allocated:
  "run demo_cfg init_state allocated_trace =
   \<lparr>ships = [(''ship-1'', demo_ship 1000000000000000000 1000000000000000000 0 Open)],
    applications = [(''app-1'', demo_app Approved 1000000000000000000)],
    allocations = [(''alloc-1'', demo_alloc ''alloc-1'' 1000000000000000000)], distributions = []\<rparr>"
  by (simp add: allocated_trace_def funded_trace_def demo_defs eval_defs)

lemma reachable_lookup:
  assumes "map_of (applications (run cfg init_state rs)) aid = Some app"
    and "map_of (ships (run cfg init_state rs)) sid = Some s"
  shows "app_id app = aid" "ship_id s = sid" "toLowerCase (ship_captain s) = ship_captain s"
    "ship_allocated s \<le> ship_budget s" "0 \<le> ship_distributed s"
proof -
  have wf: "wf_state (run cfg init_state rs)" by (rule wf_reachable)
  from wf assms(1) show "app_id app = aid"
    by (auto simp: wf_state_def dest: apps_ok_lookup)
  from wf assms(2) show "ship_id s = sid" "toLowerCase (ship_captain s) = ship_captain s"
    "ship_allocated s \<le> ship_budget s" "0 \<le> ship_distributed s"
    by (auto simp: wf_state_def dest: ships_ok_lookup)
qed

lemma same_address_code:
  "toLowerCase (ship_captain s) = ship_captain s \<Longrightarrow>
   same_address (body_alloc_captain body) (ship_captain s) =
     (map_option toLowerCase (body_alloc_captain body) = Some (ship_captain s))"
  by (cases "body_alloc_captain body") (simp_all add: same_address_def)

section \<open>Decisions\<close>

text \<open>
  Claim C9. In every reachable state, a decision with \<open>approved = false\<close> made by the captain
  on an existing application of an existing ship succeeds, stores the application with
  status \<open>Rejected\<close>, and leaves the ships (so \<open>budget\<close>, \<open>allocated\<close> and
  \<open>distributed\<close> of every round) and the allocations as they were.
\<close>

theorem reject_decision:
  assumes "map_of (applications (run cfg init_state rs)) aid = Some app"
    and "map_of (ships (run cfg init_state rs)) (app_shipId app) = Some s"
    and "same_address (body_alloc_captain body) (ship_captain s)"
    and "body_approved body = Some (JBool False)"
  shows "\<exists>st'. post_applications_allocate (run cfg init_state rs) aid body uuid now =
            Inr (st', Rejection (app\<lparr>app_status := Rejected\<rparr>))
          \<and> map_of (applications st') aid = Some (app\<lparr>app_status := Rejected\<rparr>)
          \<and> ships st' = ships (run cfg init_state rs)
          \<and> allocations st' = allocations (run cfg init_state rs)"
proof -
  note r = reachable_lookup [OF assms(1,2)]
  from assms(3) r(3) have "map_option toLowerCase (body_alloc_captain body) = Some (ship_captain s)"
    by (simp add: same_address_code)
  with assms r(1) show ?thesis
    by (simp add: post_applications_allocate_def Let_def AList.update_conv')
qed

text \<open>The rejection of the pending application of the example run.\<close>

theorem reject_decision_witness:
  "\<exists>st'. post_applications_allocate
            (run demo_cfg init_state funded_trace)
            ''app-1'' (demo_body None (Some (JBool False))) ''alloc-1'' 1002 =
            Inr (st', Rejection ((demo_app Pending 0)\<lparr>app_status := Rejected\<rparr>))
          \<and> map_of (applications st') ''app-1'' = Some ((demo_app Pending 0)\<lparr>app_status := Rejected\<rparr>)
          \<and> ships st' = ships (run demo_cfg init_state funded_trace)
          \<and> allocations st' = allocations (run demo_cfg init_state funded_trace)"
proof (rule reject_decision)
  show "map_of (applications (run demo_cfg init_state funded_trace))
          ''app-1'' = Some (demo_app Pending 0)"
    by (simp add: demo_funded)
  show "map_of (ships (run demo_cfg init_state funded_trace))
          (app_shipId (demo_app Pending 0)) = Some (demo_ship 1000000000000000000 0 0 Open)"
    by (simp add: demo_funded demo_app_def)
  show "same_address (body_alloc_captain (demo_body None (Some (JBool False))))
          (ship_captain (demo_ship 1000000000000000000 0 0 Open))"
    by (simp add: same_address_def demo_body_def demo_ship_def demo_lower)
  show "body_approved (demo_body None (Some (JBool False))) = Some (JBool False)"
    by (simp add: demo_body_def)
qed

text \<open>
  Claim C4. In every reachable state, for a decision with \<open>approved = true\<close> on an existing
  application of an existing ship whose amount text parses to \<open>amount\<close>: the call fails
  \<open>Forbidden\<close> unless the caller's address equals the captain's up to letter case;
  otherwise, with \<open>remaining = budget - allocated\<close>, it fails
  \<open>InsufficientBudget remaining amount\<close> when \<open>amount > remaining\<close>; otherwise it stores
  a new undistributed allocation of \<open>amount\<close> for the application, adds \<open>amount\<close> to the
  ship's \<open>allocated\<close>, and stores the application as \<open>Approved\<close> with
  \<open>allocation = amount\<close>.
\<close>

theorem approve_decision:
  assumes "map_of (applications (run cfg init_state rs)) aid = Some app"
    and "map_of (ships (run cfg init_state rs)) (app_shipId app) = Some s"
    and "body_approved body = Some (JBool True)"
    and "parseEther (amount_text body) = Some amount"
  shows "if \<not> same_address (body_alloc_captain body) (ship_captain s)
         then post_applications_allocate (run cfg init_state rs) aid body uuid now = Inl Forbidden
         else if amount > ship_budget s - ship_allocated s
         then post_applications_allocate (run cfg init_state rs) aid body uuid now =
                Inl (InsufficientBudget (ship_budget s - ship_allocated s) amount)
         else \<exists>st' a.
                post_applications_allocate (run cfg init_state rs) aid body uuid now =
                  Inr (st', Allocated a (app\<lparr>app_status := Approved, app_allocation := amount\<rparr>)
                              (ship_budget s - ship_allocated s - amount))
              \<and> alloc_id a = uuid \<and> alloc_shipId a = app_shipId app \<and> alloc_applicationId a = aid
              \<and> alloc_amount a = amount \<and> \<not> alloc_distributed a
              \<and> map_of (allocations st') uuid = Some a
              \<and> map_of (ships st') (app_shipId app) =
                  Some (s\<lparr>ship_allocated := ship_allocated s + amount\<rparr>)
              \<and> map_of (applications st') aid =
                  Some (app\<lparr>app_status := Approved, app_allocation := amount\<rparr>)"
proof -
  note r = reachable_lookup [OF assms(1,2)]
  note code = same_address_code [OF r(3), of body]
  show ?thesis
  proof (cases "same_address (body_alloc_captain body) (ship_captain s)")
    case False
    with assms code show ?thesis
      by (simp add: post_applications_allocate_def)
  next
    case True
    with assms code r(1,2) show ?thesis
      by (simp add: post_applications_allocate_def amount_text_def Let_def AList.update_conv')
  qed
qed

theorem approve_decision_witness:
  "\<exists>st' a.
      post_applications_allocate (run demo_cfg init_state funded_trace) ''app-1''
          (demo_body (Some ''1'') (Some (JBool True))) ''alloc-1'' 1002 =
        Inr (st', Allocated a ((demo_app Pending 0)\<lparr>app_status := Approved,
                                   app_allocation := 1000000000000000000\<rparr>) 0)
    \<and> alloc_id a = ''alloc-1'' \<and> alloc_shipId a = ''ship-1'' \<and> alloc_applicationId a = ''app-1''
    \<and> alloc_amount a = 1000000000000000000 \<and> \<not> alloc_distributed a
    \<and> map_of (allocations st') ''alloc-1'' = Some a
    \<and> map_of (ships st') ''ship-1'' = Some (demo_ship 1000000000000000000 1000000000000000000 0 Open)
    \<and> map_of (applications st') ''app-1'' = Some (demo_app Approved 1000000000000000000)"
proof -
  have 1: "map_of (applications (run demo_cfg init_state funded_trace)) ''app-1'' = Some (demo_app Pending 0)"
    by (simp add: demo_funded)
  have 2: "map_of (ships (run demo_cfg init_state funded_trace)) (app_shipId (demo_app Pending 0)) =
      Some (demo_ship 1000000000000000000 0 0 Open)"
    by (simp add: demo_funded demo_app_def)
  have 3: "body_approved (demo_body (Some ''1'') (Some (JBool True))) = Some (JBool True)"
    by (simp add: demo_body_def)
  have 4: "parseEther (amount_text (demo_body (Some ''1'') (Some (JBool True)))) = Some 1000000000000000000"
    by (simp add: demo_body_def amount_text_def truthy_def str_or_empty_def parse_simps)
  have 5: "same_address (body_alloc_captain (demo_body (Some ''1'') (Some (JBool True))))
      (ship_captain (demo_ship 1000000000000000000 0 0 Open))"
    by (simp add: same_address_def demo_body_def demo_ship_def demo_lower)
  from approve_decision [OF 1 2 3 4, of "''alloc-1''" 1002] 5 show ?thesis
    by (simp add: demo_ship_def demo_app_def)
qed

text \<open>
  Claim C7. In every reachable state, a decision by the captain that is not a rejection fails
  \<open>InvalidAmount\<close> exactly when \<open>parseEther\<close> rejects the amount text. The text \<open>-1\<close> is not
  rejected: it parses to minus one ether, the budget check lets it through, an allocation
  with that negative amount is stored, and the ship's \<open>allocated\<close> goes down by one ether.
\<close>

theorem invalid_amount:
  assumes "map_of (applications (run cfg init_state rs)) aid = Some app"
    and "map_of (ships (run cfg init_state rs)) (app_shipId app) = Some s"
    and "same_address (body_alloc_captain body) (ship_captain s)"
    and "body_approved body \<noteq> Some (JBool False)"
  shows "((post_applications_allocate (run cfg init_state rs) aid body uuid now = Inl InvalidAmount)
            = (parseEther (amount_text body) = None))
       \<and> (body_amount body = Some ''-1'' \<longrightarrow>
            (\<exists>st' a app'.
                post_applications_allocate (run cfg init_state rs) aid body uuid now =
                  Inr (st', Allocated a app'
                              (ship_budget s - ship_allocated s + 1000000000000000000))
              \<and> alloc_amount a = - 1000000000000000000
              \<and> map_of (allocations st') uuid = Some a
              \<and> map_of (ships st') (app_shipId app) =
                  Some (s\<lparr>ship_allocated := ship_allocated s - 1000000000000000000\<rparr>)))"
proof -
  note r = reachable_lookup [OF assms(1,2)]
  from assms(3) have cap: "map_option toLowerCase (body_alloc_captain body) = Some (ship_captain s)"
    by (simp add: same_address_code [OF r(3)])
  have "(post_applications_allocate (run cfg init_state rs) aid body uuid now = Inl InvalidAmount)
            = (parseEther (amount_text body) = None)"
    using assms(1,2,4) cap
    by (auto simp: post_applications_allocate_def amount_text_def Let_def split: option.splits)
  moreover have "\<exists>st' a app'.
                post_applications_allocate (run cfg init_state rs) aid body uuid now =
                  Inr (st', Allocated a app'
                              (ship_budget s - ship_allocated s + 1000000000000000000))
              \<and> alloc_amount a = - 1000000000000000000
              \<and> map_of (allocations st') uuid = Some a
              \<and> map_of (ships st') (app_shipId app) =
                  Some (s\<lparr>ship_allocated := ship_allocated s - 1000000000000000000\<rparr>)"
    if "body_amount body = Some ''-1''"
    using that assms(1,2,4) cap r(2,4)
    by (simp add: post_applications_allocate_def Let_def truthy_def str_or_empty_def
                  parseEther_minus_1 AList.update_conv')
  ultimately show ?thesis by blast
qed

theorem invalid_amount_witness:
  "((post_applications_allocate (run demo_cfg init_state funded_trace) ''app-1''
        (demo_body (Some ''-1'') None) ''alloc-1'' 1002 = Inl InvalidAmount)
      = (parseEther (amount_text (demo_body (Some ''-1'') None)) = None))
   \<and> (\<exists>st' a app'.
         post_applications_allocate (run demo_cfg init_state funded_trace) ''app-1''
             (demo_body (Some ''-1'') None) ''alloc-1'' 1002 =
           Inr (st', Allocated a app' 2000000000000000000)
       \<and> alloc_amount a = - 1000000000000000000
       \<and> map_of (allocations st') ''alloc-1'' = Some a
       \<and> map_of (ships st') ''ship-1'' =
           Some (demo_ship 1000000000000000000 (- 1000000000000000000) 0 Open))"
proof -
  have 1: "map_of (applications (run demo_cfg init_state funded_trace)) ''app-1'' = Some (demo_app Pending 0)"
    by (simp add: demo_funded)
  have 2: "map_of (ships (run demo_cfg init_state funded_trace)) (app_shipId (demo_app Pending 0)) =
      Some (demo_ship 1000000000000000000 0 0 Open)"
    by (simp add: demo_funded demo_app_def)
  have 3: "same_address (body_alloc_captain (demo_body (Some ''-1'') None))
      (ship_captain (demo_ship 1000000000000000000 0 0 Open))"
    by (simp add: same_address_def demo_body_def demo_ship_def demo_lower)
  have 4: "body_approved (demo_body (Some ''-1'') None) \<noteq> Some (JBool False)"
    by (simp add: demo_body_def)
  have 5: "body_amount (demo_body (Some ''-1'') None) = Some ''-1''"
    by (simp add: demo_body_def)
  from invalid_amount [OF 1 2 3 4, of "''alloc-1''" 1002] 5 show ?thesis
    by (simp add: demo_ship_def demo_app_def)
qed

text \<open>
  Claim C10. A decision whose \<open>approved\<close> field is absent, or holds anything but the boolean
  \<open>false\<close>, is handled exactly as one with \<open>approved = true\<close>. If, in a reachable state, the
  captain sends it for an existing application of an existing ship and \<open>amount\<close> is absent
  too, the amount is zero: the call succeeds, stores an undistributed allocation of
  amount 0 and stores the application as \<open>Approved\<close> with allocation 0.
\<close>

theorem default_approval:
  assumes "map_of (applications (run cfg init_state rs)) aid = Some app"
    and "map_of (ships (run cfg init_state rs)) (app_shipId app) = Some s"
    and "same_address (body_alloc_captain body) (ship_captain s)"
    and "body_approved body \<noteq> Some (JBool False)"
  shows "post_applications_allocate (run cfg init_state rs) aid body uuid now =
           post_applications_allocate (run cfg init_state rs) aid
             (body\<lparr>body_approved := Some (JBool True)\<rparr>) uuid now
       \<and> (body_amount body = None \<longrightarrow>
            (\<exists>st' a.
                post_applications_allocate (run cfg init_state rs) aid body uuid now =
                  Inr (st', Allocated a (app\<lparr>app_status := Approved, app_allocation := 0\<rparr>)
                              (ship_budget s - ship_allocated s))
              \<and> alloc_amount a = 0 \<and> \<not> alloc_distributed a \<and> alloc_applicationId a = aid
              \<and> map_of (allocations st') uuid = Some a
              \<and> map_of (applications st') aid =
                  Some (app\<lparr>app_status := Approved, app_allocation := 0\<rparr>)))"
proof -
  note r = reachable_lookup [OF assms(1,2)]
  from assms(3) have cap: "map_option toLowerCase (body_alloc_captain body) = Some (ship_captain s)"
    by (simp add: same_address_code [OF r(3)])
  have "post_applications_allocate (run cfg init_state rs) aid body uuid now =
           post_applications_allocate (run cfg init_state rs) aid
             (body\<lparr>body_approved := Some (JBool True)\<rparr>) uuid now"
    using assms(1,2,4) cap by (simp add: post_applications_allocate_def)
  moreover have "\<exists>st' a.
                post_applications_allocate (run cfg init_state rs) aid body uuid now =
                  Inr (st', Allocated a (app\<lparr>app_status := Approved, app_allocation := 0\<rparr>)
                              (ship_budget s - ship_allocated s))
              \<and> alloc_amount a = 0 \<and> \<not> alloc_distributed a \<and> alloc_applicationId a = aid
              \<and> map_of (allocations st') uuid = Some a
              \<and> map_of (applications st') aid =
                  Some (app\<lparr>app_status := Approved, app_allocation := 0\<rparr>)"
    if "body_amount body = None"
    using that assms(1,2,4) cap r(1,4)
    by (simp add: post_applications_allocate_def Let_def truthy_def str_or_empty_def
                  parseEther_0 AList.update_conv')
  ultimately show ?thesis by blast
qed

theorem default_approval_witness:
  "post_applications_allocate (run demo_cfg init_state funded_trace) ''app-1''
       (demo_body None None) ''alloc-1'' 1002 =
     post_applications_allocate (run demo_cfg init_state funded_trace) ''app-1''
       ((demo_body None None)\<lparr>body_approved := Some (JBool True)\<rparr>) ''alloc-1'' 1002
   \<and> (\<exists>st' a.
         post_applications_allocate (run demo_cfg init_state funded_trace) ''app-1''
             (demo_body None None) ''alloc-1'' 1002 =
           Inr (st', Allocated a (demo_app Approved 0) 1000000000000000000)
       \<and> alloc_amount a = 0 \<and> \<not> alloc_distributed a \<and> alloc_applicationId a = ''app-1''
       \<and> map_of (allocations st') ''alloc-1'' = Some a
       \<and> map_of (applications st') ''app-1'' = Some (demo_app Approved 0))"
proof -
  have 1: "map_of (applications (run demo_cfg init_state funded_trace)) ''app-1'' = Some (demo_app Pending 0)"
    by (simp add: demo_funded)
  have 2: "map_of (ships (run demo_cfg init_state funded_trace)) (app_shipId (demo_app Pending 0)) =
      Some (demo_ship 1000000000000000000 0 0 Open)"
    by (simp add: demo_funded demo_app_def)
  have 3: "same_address (body_alloc_captain (demo_body None None))
      (ship_captain (demo_ship 1000000000000000000 0 0 Open))"
    by (simp add: same_address_def demo_body_def demo_ship_def demo_lower)
  have 4: "body_approved (demo_body None None) \<noteq> Some (JBool False)"
    by (simp add: demo_body_def)
  have 5: "body_amount (demo_body None None) = None"
    by (simp add: demo_body_def)
  note t = default_approval [OF 1 2 3 4, of "''alloc-1''" 1002]
  show ?thesis
  proof (rule conjI)
    show "post_applications_allocate (run demo_cfg init_state funded_trace) ''app-1''
       (demo_body None None) ''alloc-1'' 1002 =
     post_applications_allocate (run demo_cfg init_state funded_trace) ''app-1''
       ((demo_body None None)\<lparr>body_approved := Some (JBool True)\<rparr>) ''alloc-1'' 1002"
      by (rule t [THEN conjunct1])
    from t [THEN conjunct2] 5 show "\<exists>st' a.
         post_applications_allocate (run demo_cfg init_state funded_trace) ''app-1''
             (demo_body None None) ''alloc-1'' 1002 =
           Inr (st', Allocated a (demo_app Approved 0) 1000000000000000000)
       \<and> alloc_amount a = 0 \<and> \<not> alloc_distributed a \<and> alloc_applicationId a = ''app-1''
       \<and> map_of (allocations st') ''alloc-1'' = Some a
       \<and> map_of (applications st') ''app-1'' = Some (demo_app Approved 0)"
      by (simp add: demo_ship_def demo_app_def)
  qed
qed

section \<open>The payout loop and the keys of the maps\<close>

lemma payout_loop_calls:
  "snd (snd (payout_loop send ps allocs payouts calls)) =
   calls @ map (\<lambda>a. (alloc_applicant a, netAmount a)) ps"
  by (induction ps arbitrary: allocs payouts calls) (simp_all add: Let_def split: option.splits prod.splits)


lemma payout_loop_payout_nets:
  "map payout_net (fst (snd (payout_loop send ps allocs payouts calls))) =
   map payout_net payouts @ map netAmount (filter (paid send) ps)"
  by (induction ps arbitrary: allocs payouts calls)
     (simp_all add: Let_def paid_def split: option.splits prod.splits)

lemma payout_loop_distinct:
  "distinct (map fst allocs) \<Longrightarrow> distinct (map fst (fst (payout_loop send ps allocs payouts calls)))"
  by (induction ps arbitrary: allocs payouts calls)
     (simp_all add: Let_def AList.distinct_update split: option.splits prod.splits)

lemma payout_loop_distinct_eq:
  "payout_loop send ps allocs payouts calls = (allocs', rest) \<Longrightarrow> distinct (map fst allocs) \<Longrightarrow>
   distinct (map fst allocs')"
  using payout_loop_distinct [of allocs send ps payouts calls] by simp

lemma close_expired_distinct:
  "distinct (map fst m) \<Longrightarrow> distinct (map fst (close_expired now ss m))"
  by (induction ss arbitrary: m) (simp_all add: AList.distinct_update)

lemma payout_loop_lookup_other:
  "k \<notin> alloc_id ` set (filter (paid send) ps) \<Longrightarrow>
   map_of (fst (payout_loop send ps allocs payouts calls)) k = map_of allocs k"
  by (induction ps arbitrary: allocs payouts calls)
     (auto simp: Let_def paid_def AList.update_conv' split: option.splits prod.splits)


lemma keys_ok_step: "keys_ok st \<Longrightarrow> keys_ok (step cfg st r)"
proof (cases r)
  case (CreateShip body uuid now)
  assume "keys_ok st"
  with CreateShip show ?thesis
    by (auto simp: keys_ok_def keep_def post_ships_def Let_def AList.distinct_update
             split: sum.splits if_splits)
next
  case (ListShips status now)
  assume "keys_ok st"
  with ListShips show ?thesis
    by (simp add: keys_ok_def get_ships_def Let_def close_expired_distinct)
next
  case (Fund sid txHash chain)
  assume "keys_ok st"
  with Fund show ?thesis
    by (auto simp: keys_ok_def keep_def post_ships_fund_def Let_def AList.distinct_update
             split: sum.splits if_splits option.splits rpc.splits)
next
  case (Apply sid body uuid now)
  assume "keys_ok st"
  with Apply show ?thesis
    by (auto simp: keys_ok_def keep_def post_ships_apply_def Let_def AList.distinct_update
             split: sum.splits if_splits option.splits)
next
  case (Allocate aid body uuid now)
  assume "keys_ok st"
  with Allocate show ?thesis
    by (auto simp: keys_ok_def keep_def post_applications_allocate_def Let_def AList.distinct_update
             split: sum.splits if_splits option.splits)
next
  case (Distribute sid send uuid now)
  assume "keys_ok st"
  with Distribute show ?thesis
    by (auto simp: keys_ok_def keep_def post_ships_distribute_def Let_def AList.distinct_update
             split: sum.splits if_splits option.splits prod.splits
             dest: payout_loop_distinct_eq)
qed



lemma pending_distinct:
  assumes "allocs_ok (allocations st)" "distinct (map fst (allocations st))"
  shows "distinct (map alloc_id (pendingAllocations st s))"
proof -
  from assms(1) have "map (alloc_id \<circ> snd) (allocations st) = map fst (allocations st)"
    by (auto simp: allocs_ok_def)
  with assms(2) have "distinct (map (alloc_id \<circ> snd) (allocations st))" by (simp only:)
  then have "distinct (map alloc_id (map snd (allocations st)))" by simp
  then show ?thesis
    unfolding pendingAllocations_def by (rule distinct_map_filter)
qed

lemma pending_lookup:
  assumes "allocs_ok (allocations st)" "distinct (map fst (allocations st))"
    and "a \<in> set (pendingAllocations st s)"
  shows "map_of (allocations st) (alloc_id a) = Some a"
proof -
  from assms(3) obtain k where "(k, a) \<in> set (allocations st)"
    by (auto simp: pendingAllocations_def)
  moreover with assms(1) have "alloc_id a = k" by (auto simp: allocs_ok_def)
  ultimately show ?thesis using assms(2) by simp
qed

lemma distribute_fails:
  "post_ships_distribute cfg st sid send uuid now = Inl e \<Longrightarrow>
   step cfg st (Distribute sid send uuid now) = st"
  by (simp add: keep_def)

lemma distribute_succeeds:
  assumes "map_of (ships st) sid = Some s" "getWallet cfg" "pendingAllocations st s \<noteq> []"
  shows "\<exists>st' r. post_ships_distribute cfg st sid send uuid now = Inr (st', r)"
  using assms by (simp add: post_ships_distribute_def Let_def split: prod.splits)

lemma distribute_result:
  assumes "post_ships_distribute cfg st sid send uuid now = Inr (st', r)"
    and "map_of (ships st) sid = Some s"
  shows "getWallet cfg" "pendingAllocations st s \<noteq> []"
    and "allocations st' = fst (payout_loop send (pendingAllocations st s) (allocations st) [] [])"
    and "dist_payouts (res_distribution r) =
           fst (snd (payout_loop send (pendingAllocations st s) (allocations st) [] []))"
    and "res_calls r = snd (snd (payout_loop send (pendingAllocations st s) (allocations st) [] []))"
    and "dist_totalGross (res_distribution r) = sum_list (map alloc_amount (pendingAllocations st s))"
    and "dist_totalFee (res_distribution r) =
           bigint_div (sum_list (map alloc_amount (pendingAllocations st s)) * FEE_PERCENT) 100"
    and "dist_totalNet (res_distribution r) =
           dist_totalGross (res_distribution r) - dist_totalFee (res_distribution r)"
    and "ship_distributed (res_ship r) = ship_distributed s + dist_totalNet (res_distribution r)"
    and "ship_status (res_ship r) =
           (if ship_distributed (res_ship r) \<ge> ship_allocated (res_ship r)
            then Completed else Distributing)"
    and "ship_allocated (res_ship r) = ship_allocated s" "ship_budget (res_ship r) = ship_budget s"
    and "ship_id (res_ship r) = ship_id s"
    and "ships st' = AList.update (ship_id s) (res_ship r) (ships st)"
    and "applications st' = applications st"
    and "st' = step cfg st (Distribute sid send uuid now)"
  using assms
  by (auto simp: post_ships_distribute_def Let_def keep_def foldl_amounts
           split: if_splits prod.splits)

lemma net_amount_floor:
  "0 \<le> alloc_amount a \<Longrightarrow> netAmount a = (alloc_amount a * (100 - FEE_PERCENT)) div 100"
  by (simp add: netAmount_def bigint_div_nonneg FEE_PERCENT_def)

lemma pending_positive: "a \<in> set (pendingAllocations st s) \<Longrightarrow> 0 < alloc_amount a"
  by (simp add: pendingAllocations_def)

section \<open>Distribution\<close>

text \<open>
  Claim C8. In a distribution run, the value sent for each selected allocation is
  \<open>floor (amount * (100 - 5) / 100)\<close>. When a single allocation of 1,000,000 units is
  selected, 950,000 units are sent, and the record shows a fee of 50,000 and a net total
  of 950,000.
\<close>

theorem fee_five_percent:
  assumes "post_ships_distribute cfg st sid send uuid now = Inr (st', r)"
    and "map_of (ships st) sid = Some s"
  shows "res_calls r =
           map (\<lambda>a. (alloc_applicant a, (alloc_amount a * (100 - FEE_PERCENT)) div 100))
             (pendingAllocations st s)
       \<and> (\<forall>a. pendingAllocations st s = [a] \<and> alloc_amount a = 1000000 \<longrightarrow>
             res_calls r = [(alloc_applicant a, 950000)]
           \<and> dist_totalGross (res_distribution r) = 1000000
           \<and> dist_totalFee (res_distribution r) = 50000
           \<and> dist_totalNet (res_distribution r) = 950000)"
proof -
  note d = distribute_result [OF assms]
  have calls: "res_calls r = map (\<lambda>a. (alloc_applicant a, netAmount a)) (pendingAllocations st s)"
    by (simp add: d(5) payout_loop_calls)
  have "map (\<lambda>a. (alloc_applicant a, netAmount a)) (pendingAllocations st s) =
        map (\<lambda>a. (alloc_applicant a, (alloc_amount a * (100 - FEE_PERCENT)) div 100))
          (pendingAllocations st s)"
    by (rule map_cong) (auto dest: pending_positive simp: net_amount_floor)
  with calls have 1: "res_calls r =
           map (\<lambda>a. (alloc_applicant a, (alloc_amount a * (100 - FEE_PERCENT)) div 100))
             (pendingAllocations st s)"
    by simp
  have 2: "res_calls r = [(alloc_applicant a, 950000)]
           \<and> dist_totalGross (res_distribution r) = 1000000
           \<and> dist_totalFee (res_distribution r) = 50000
           \<and> dist_totalNet (res_distribution r) = 950000"
    if "pendingAllocations st s = [a]" "alloc_amount a = 1000000" for a
    using that 1 d(6,7,8) by (simp add: FEE_PERCENT_def bigint_div_def)
  from 1 2 show ?thesis by blast
qed

lemma demo_micro:
  "run demo_cfg init_state micro_trace =
   \<lparr>ships = [(''ship-1'', demo_ship 1000000000000000000 1000000 0 Open)],
    applications = [(''app-1'', demo_app Approved 1000000)],
    allocations = [(''alloc-1'', demo_alloc ''alloc-1'' 1000000)], distributions = []\<rparr>"
  by (simp add: micro_trace_def funded_trace_def demo_defs eval_defs)

lemma demo_micro_pending:
  "pendingAllocations (run demo_cfg init_state micro_trace)
     (demo_ship 1000000000000000000 1000000 0 Open) = [demo_alloc ''alloc-1'' 1000000]"
  by (simp add: demo_micro pendingAllocations_def demo_ship_def demo_alloc_def)

theorem fee_five_percent_witness:
  "\<exists>st' r. post_ships_distribute demo_cfg (run demo_cfg init_state micro_trace) ''ship-1''
              paying_send ''dist-1'' 1003 = Inr (st', r)
     \<and> res_calls r = [(demo_applicant, 950000)]
     \<and> dist_totalGross (res_distribution r) = 1000000
     \<and> dist_totalFee (res_distribution r) = 50000
     \<and> dist_totalNet (res_distribution r) = 950000"
proof -
  have s: "map_of (ships (run demo_cfg init_state micro_trace)) ''ship-1'' =
      Some (demo_ship 1000000000000000000 1000000 0 Open)"
    by (simp add: demo_micro)
  have "getWallet demo_cfg" by (simp add: getWallet_def demo_cfg_def truthy_def str_or_empty_def)
  from distribute_succeeds [OF s this, of paying_send "''dist-1''" 1003]
  obtain st' r where run: "post_ships_distribute demo_cfg (run demo_cfg init_state micro_trace)
      ''ship-1'' paying_send ''dist-1'' 1003 = Inr (st', r)"
    by (auto simp: demo_micro_pending)
  from fee_five_percent [OF run s, THEN conjunct2, rule_format, of "demo_alloc ''alloc-1'' 1000000"]
  have "res_calls r = [(alloc_applicant (demo_alloc ''alloc-1'' 1000000), 950000)]
           \<and> dist_totalGross (res_distribution r) = 1000000
           \<and> dist_totalFee (res_distribution r) = 50000
           \<and> dist_totalNet (res_distribution r) = 950000"
    by (simp add: demo_micro_pending) (simp add: demo_alloc_def)
  with run show ?thesis by (simp add: demo_alloc_def)
qed

lemma demo_wallet: "getWallet demo_cfg"
  by (simp add: getWallet_def demo_cfg_def truthy_def str_or_empty_def)

lemma demo_net: "netAmount (demo_alloc uuid 1000000000000000000) = 950000000000000000"
  by (simp add: netAmount_def bigint_div_def demo_alloc_def)

lemma demo_distribute_failing:
  "post_ships_distribute demo_cfg (run demo_cfg init_state allocated_trace) ''ship-1''
      failing_send ''dist-1'' 1003 =
   Inr (\<lparr>ships = [(''ship-1'', demo_ship 1000000000000000000 1000000000000000000
                                   950000000000000000 Distributing)],
         applications = [(''app-1'', demo_app Approved 1000000000000000000)],
         allocations = [(''alloc-1'', demo_alloc ''alloc-1'' 1000000000000000000)],
         distributions = [(''dist-1'', demo_dist [])]\<rparr>,
        \<lparr>res_distribution = demo_dist [],
         res_ship = demo_ship 1000000000000000000 1000000000000000000 950000000000000000 Distributing,
         res_calls = [(demo_applicant, 950000000000000000)]\<rparr>)"
  by (simp add: demo_allocated post_ships_distribute_def pendingAllocations_def demo_wallet Let_def
        failing_send_def demo_net FEE_PERCENT_def bigint_div_def demo_dist_def)
     (simp add: demo_ship_def demo_alloc_def)

lemma demo_distribute_paying:
  "post_ships_distribute demo_cfg (run demo_cfg init_state allocated_trace) ''ship-1''
      paying_send ''dist-1'' 1003 =
   Inr (\<lparr>ships = [(''ship-1'', demo_ship 1000000000000000000 1000000000000000000
                                   950000000000000000 Distributing)],
         applications = [(''app-1'', demo_app Approved 1000000000000000000)],
         allocations = [(''alloc-1'', (demo_alloc ''alloc-1'' 1000000000000000000)
                           \<lparr>alloc_distributed := True, alloc_distributedAt := Some 1010,
                              alloc_txHash := Some ''0xpaid''\<rparr>)],
         distributions = [(''dist-1'', demo_dist [demo_payout])]\<rparr>,
        \<lparr>res_distribution = demo_dist [demo_payout],
         res_ship = demo_ship 1000000000000000000 1000000000000000000 950000000000000000 Distributing,
         res_calls = [(demo_applicant, 950000000000000000)]\<rparr>)"
  by (simp add: demo_allocated post_ships_distribute_def pendingAllocations_def demo_wallet Let_def
        paying_send_def demo_net FEE_PERCENT_def bigint_div_def demo_dist_def demo_payout_def)
     (simp add: demo_ship_def demo_alloc_def)

lemma run_append: "run cfg st (rs @ rs') = run cfg (run cfg st rs) rs'"
  by (induction rs arbitrary: st) simp_all

lemma demo_paid:
  "run demo_cfg init_state paid_trace =
   \<lparr>ships = [(''ship-1'', demo_ship 1000000000000000000 1000000000000000000
                                   950000000000000000 Distributing)],
    applications = [(''app-1'', demo_app Approved 1000000000000000000)],
    allocations = [(''alloc-1'', (demo_alloc ''alloc-1'' 1000000000000000000)
                           \<lparr>alloc_distributed := True, alloc_distributedAt := Some 1010,
                              alloc_txHash := Some ''0xpaid''\<rparr>)],
    distributions = [(''dist-1'', demo_dist [demo_payout])]\<rparr>"
  by (simp add: paid_trace_def run_append keep_def demo_distribute_paying)

lemma demo_unpaid:
  "run demo_cfg init_state unpaid_trace =
   \<lparr>ships = [(''ship-1'', demo_ship 1000000000000000000 1000000000000000000
                                   950000000000000000 Distributing)],
    applications = [(''app-1'', demo_app Approved 1000000000000000000)],
    allocations = [(''alloc-1'', demo_alloc ''alloc-1'' 1000000000000000000)],
    distributions = [(''dist-1'', demo_dist [])]\<rparr>"
  by (simp add: unpaid_trace_def run_append keep_def demo_distribute_failing)







text \<open>
  Claim C2 at a failing input. The ship of the example run has one allocation of one ether;
  the distribution run in which its transfer throws leaves the allocation unpaid
  (\<open>distributed = false\<close>), and still adds the whole net total of the batch,
  0.95 ether, to the ship's \<open>distributed\<close>.
\<close>

theorem failed_payout_counted:
  "ships (run demo_cfg init_state unpaid_trace) =
     [(''ship-1'', demo_ship 1000000000000000000 1000000000000000000 950000000000000000 Distributing)]
   \<and> allocations (run demo_cfg init_state unpaid_trace) =
     [(''alloc-1'', demo_alloc ''alloc-1'' 1000000000000000000)]
   \<and> alloc_distributed (demo_alloc ''alloc-1'' 1000000000000000000) = False
   \<and> map (dist_payouts \<circ> snd) (distributions (run demo_cfg init_state unpaid_trace)) = [[]]"
  by (simp add: demo_unpaid demo_alloc_def demo_dist_def)

section \<open>Deciding an application again\<close>

lemma demo_double:
  "run demo_cfg init_state double_trace =
   \<lparr>ships = [(''ship-1'', demo_ship 2000000000000000000 1000000000000000000 0 Open)],
    applications = [(''app-1'', demo_app Approved 1000000000000000000)],
    allocations = [(''alloc-1'', demo_alloc ''alloc-1'' 1000000000000000000)], distributions = []\<rparr>"
  by (simp add: double_trace_def demo_defs eval_defs)

text \<open>
  Claim C3 as stated fails: the application of the example run is already \<open>Approved\<close> with
  an allocation of one ether; a second approval of one ether does not fail, stores a second
  allocation for the same application and raises the ship's \<open>allocated\<close> to two ether.
\<close>

theorem second_decision_counterexample:
  "post_applications_allocate (run demo_cfg init_state double_trace) ''app-1''
      (demo_body (Some ''1'') (Some (JBool True))) ''alloc-2'' 1005 =
   Inr (\<lparr>ships = [(''ship-1'', demo_ship 2000000000000000000 2000000000000000000 0 Open)],
         applications = [(''app-1'', demo_app Approved 1000000000000000000)],
         allocations = [(''alloc-1'', demo_alloc ''alloc-1'' 1000000000000000000),
                        (''alloc-2'', (demo_alloc ''alloc-2'' 1000000000000000000)
                                         \<lparr>alloc_createdAt := 1005\<rparr>)],
         distributions = []\<rparr>,
        Allocated ((demo_alloc ''alloc-2'' 1000000000000000000)\<lparr>alloc_createdAt := 1005\<rparr>)
          (demo_app Approved 1000000000000000000) 0)"
  unfolding demo_double by (simp add: demo_defs eval_defs)

text \<open>
  Claim C3, amended. In a reachable state, a decision by the captain on an application that is
  already \<open>Approved\<close> or \<open>Rejected\<close> is handled like a first decision and never fails
  \<open>InvalidState\<close>. A rejection stores the application as \<open>Rejected\<close>, whatever it was,
  and keeps the allocations and the ships. An approval whose amount parses and does not
  exceed the remaining budget stores a further allocation, adds the amount to the ship's
  \<open>allocated\<close> once more, and stores the application as \<open>Approved\<close> with that amount.
\<close>

theorem decided_again:
  assumes "map_of (applications (run cfg init_state rs)) aid = Some app"
    and "app_status app = Approved \<or> app_status app = Rejected"
    and "map_of (ships (run cfg init_state rs)) (app_shipId app) = Some s"
    and "same_address (body_alloc_captain body) (ship_captain s)"
  shows "post_applications_allocate (run cfg init_state rs) aid body uuid now \<noteq> Inl InvalidState
       \<and> (body_approved body = Some (JBool False) \<longrightarrow>
            (\<exists>st'. post_applications_allocate (run cfg init_state rs) aid body uuid now =
                     Inr (st', Rejection (app\<lparr>app_status := Rejected\<rparr>))
                 \<and> map_of (applications st') aid = Some (app\<lparr>app_status := Rejected\<rparr>)
                 \<and> allocations st' = allocations (run cfg init_state rs)
                 \<and> ships st' = ships (run cfg init_state rs)))
       \<and> (body_approved body \<noteq> Some (JBool False) \<longrightarrow>
            (\<forall>amount. parseEther (amount_text body) = Some amount
                  \<and> amount \<le> ship_budget s - ship_allocated s \<longrightarrow>
               (\<exists>st' a. post_applications_allocate (run cfg init_state rs) aid body uuid now =
                     Inr (st', Allocated a (app\<lparr>app_status := Approved, app_allocation := amount\<rparr>)
                                 (ship_budget s - ship_allocated s - amount))
                 \<and> alloc_applicationId a = aid \<and> alloc_amount a = amount
                 \<and> allocations st' = AList.update uuid a (allocations (run cfg init_state rs))
                 \<and> map_of (ships st') (app_shipId app) =
                     Some (s\<lparr>ship_allocated := ship_allocated s + amount\<rparr>)
                 \<and> map_of (applications st') aid =
                     Some (app\<lparr>app_status := Approved, app_allocation := amount\<rparr>))))"
proof -
  note r = reachable_lookup [OF assms(1,3)]
  from assms(4) have cap: "map_option toLowerCase (body_alloc_captain body) = Some (ship_captain s)"
    by (simp add: same_address_code [OF r(3)])
  have 1: "post_applications_allocate (run cfg init_state rs) aid body uuid now \<noteq> Inl InvalidState"
    by (simp add: post_applications_allocate_def Let_def split: option.splits)
  have 2: "\<exists>st'. post_applications_allocate (run cfg init_state rs) aid body uuid now =
                     Inr (st', Rejection (app\<lparr>app_status := Rejected\<rparr>))
                 \<and> map_of (applications st') aid = Some (app\<lparr>app_status := Rejected\<rparr>)
                 \<and> allocations st' = allocations (run cfg init_state rs)
                 \<and> ships st' = ships (run cfg init_state rs)"
    if "body_approved body = Some (JBool False)"
    using that assms(1,3) cap r(1)
    by (simp add: post_applications_allocate_def Let_def AList.update_conv')
  have 3: "\<exists>st' a. post_applications_allocate (run cfg init_state rs) aid body uuid now =
                     Inr (st', Allocated a (app\<lparr>app_status := Approved, app_allocation := amount\<rparr>)
                                 (ship_budget s - ship_allocated s - amount))
                 \<and> alloc_applicationId a = aid \<and> alloc_amount a = amount
                 \<and> allocations st' = AList.update uuid a (allocations (run cfg init_state rs))
                 \<and> map_of (ships st') (app_shipId app) =
                     Some (s\<lparr>ship_allocated := ship_allocated s + amount\<rparr>)
                 \<and> map_of (applications st') aid =
                     Some (app\<lparr>app_status := Approved, app_allocation := amount\<rparr>)"
    if "body_approved body \<noteq> Some (JBool False)" "parseEther (amount_text body) = Some amount"
      "amount \<le> ship_budget s - ship_allocated s" for amount
    using that assms(1,3) cap r(1,2)
    by (simp add: post_applications_allocate_def amount_text_def Let_def AList.update_conv')
  from 1 2 3 show ?thesis by blast
qed

text \<open>Rejecting the approved application of the example run reverts its status.\<close>

theorem decided_again_witness:
  "\<exists>st'. post_applications_allocate (run demo_cfg init_state double_trace) ''app-1''
            (demo_body None (Some (JBool False))) ''alloc-2'' 1005 =
            Inr (st', Rejection (demo_app Rejected 1000000000000000000))
       \<and> map_of (applications st') ''app-1'' = Some (demo_app Rejected 1000000000000000000)
       \<and> allocations st' = allocations (run demo_cfg init_state double_trace)
       \<and> ships st' = ships (run demo_cfg init_state double_trace)"
proof -
  have 1: "map_of (applications (run demo_cfg init_state double_trace)) ''app-1'' =
      Some (demo_app Approved 1000000000000000000)"
    by (simp add: demo_double)
  have 2: "app_status (demo_app Approved 1000000000000000000) = Approved
      \<or> app_status (demo_app Approved 1000000000000000000) = Rejected"
    by (simp add: demo_app_def)
  have 3: "map_of (ships (run demo_cfg init_state double_trace))
      (app_shipId (demo_app Approved 1000000000000000000)) =
      Some (demo_ship 2000000000000000000 1000000000000000000 0 Open)"
    by (simp add: demo_double demo_app_def)
  have 4: "same_address (body_alloc_captain (demo_body None (Some (JBool False))))
      (ship_captain (demo_ship 2000000000000000000 1000000000000000000 0 Open))"
    by (simp add: same_address_def demo_body_def demo_ship_def demo_lower)
  have 5: "body_approved (demo_body None (Some (JBool False))) = Some (JBool False)"
    by (simp add: demo_body_def)
  from decided_again [OF 1 2 3 4, THEN conjunct2, THEN conjunct1, rule_format, OF 5,
      of "''alloc-2''" 1005]
  show ?thesis by (simp add: demo_app_def)
qed

section \<open>Sums over the allocations\<close>

lemma sum_update:
  fixes g :: "'k \<times> 'v \<Rightarrow> int"
  shows "sum_list (map g (AList.update k v al)) =
         sum_list (map g al) + g (k, v) - (case map_of al k of None \<Rightarrow> 0 | Some old \<Rightarrow> g (k, old))"
  by (induction al) auto

lemma set_update_distinct:
  "distinct (map fst al) \<Longrightarrow> set (AList.update k v al) = insert (k, v) {e \<in> set al. fst e \<noteq> k}"
  by (induction al) (auto simp: rev_image_eqI)

lemma fresh_key_lookup: "k \<notin> fst ` set al \<Longrightarrow> map_of al k = None"
  by (simp add: map_of_eq_None_iff)

lemma paid_sum_nonneg:
  "\<forall>p\<in>set al. 0 \<le> alloc_amount (snd p) \<Longrightarrow> 0 \<le> paid_sum al k"
  unfolding paid_sum_def by (rule sum_list_nonneg) auto

lemma paid_le_allocated_sum:
  "\<forall>p\<in>set al. 0 \<le> alloc_amount (snd p) \<Longrightarrow> paid_sum al k \<le> allocated_sum al k"
  unfolding paid_sum_def allocated_sum_def by (rule sum_list_mono) auto

lemma allocated_sum_unreferenced:
  "\<forall>p\<in>set al. alloc_shipId (snd p) \<noteq> k \<Longrightarrow> allocated_sum al k = 0"
  unfolding allocated_sum_def by (induction al) auto

lemma loop_prems:
  assumes "distinct (map alloc_id (a # ps))" "\<forall>b\<in>set (a # ps). map_of allocs (alloc_id b) = Some b \<and> P b"
  shows "map_of allocs (alloc_id a) = Some a" "P a" "distinct (map alloc_id ps)"
    "\<forall>b\<in>set ps. map_of (AList.update (alloc_id a) a' allocs) (alloc_id b) = Some b \<and> P b"
proof -
  from assms(2) show "map_of allocs (alloc_id a) = Some a" "P a" by simp_all
  from assms(1) show "distinct (map alloc_id ps)" by simp
  show "\<forall>b\<in>set ps. map_of (AList.update (alloc_id a) a' allocs) (alloc_id b) = Some b \<and> P b"
  proof
    fix b assume b: "b \<in> set ps"
    from assms(1) have "alloc_id a \<notin> alloc_id ` set ps" by simp
    with b have "alloc_id b \<noteq> alloc_id a" by (metis imageI)
    moreover from b assms(2) have "map_of allocs (alloc_id b) = Some b \<and> P b" by simp
    ultimately show "map_of (AList.update (alloc_id a) a' allocs) (alloc_id b) = Some b \<and> P b"
      by (simp add: AList.update_conv')
  qed
qed

lemma payout_loop_allocated_sum:
  assumes "distinct (map alloc_id ps)" "\<forall>a\<in>set ps. map_of allocs (alloc_id a) = Some a \<and> True"
  shows "allocated_sum (fst (payout_loop send ps allocs payouts calls)) k = allocated_sum allocs k"
  using assms
proof (induction ps arbitrary: allocs payouts calls)
  case Nil
  then show ?case by simp
next
  case (Cons a ps)
  show ?case
  proof (cases "send a (netAmount a)")
    case None
    from Cons.prems have "distinct (map alloc_id ps)"
      "\<forall>a\<in>set ps. map_of allocs (alloc_id a) = Some a \<and> True" by simp_all
    from Cons.IH [OF this] None show ?thesis by simp
  next
    case (Some ht)
    obtain h t where ht: "ht = (h, t)" by (cases ht)
    let ?a' = "a\<lparr>alloc_distributed := True, alloc_distributedAt := Some t, alloc_txHash := Some h\<rparr>"
    let ?allocs = "AList.update (alloc_id a) ?a' allocs"
    note p = loop_prems(1-3) [OF Cons.prems]
    note p4 = loop_prems(4) [OF Cons.prems, where a' = ?a']
    have "allocated_sum ?allocs k = allocated_sum allocs k"
      unfolding allocated_sum_def sum_update p(1) by simp
    with Cons.IH [OF p(3) p4] Some ht show ?thesis by simp
  qed
qed

lemma payout_loop_paid_sum:
  assumes "distinct (map alloc_id ps)"
    and "\<forall>a\<in>set ps. map_of allocs (alloc_id a) = Some a \<and> \<not> alloc_distributed a"
  shows "paid_sum (fst (payout_loop send ps allocs payouts calls)) k =
         paid_sum allocs k +
         sum_list (map (\<lambda>a. if paid send a \<and> alloc_shipId a = k then alloc_amount a else 0) ps)"
  using assms
proof (induction ps arbitrary: allocs payouts calls)
  case Nil
  then show ?case by simp
next
  case (Cons a ps)
  show ?case
  proof (cases "send a (netAmount a)")
    case None
    from Cons.prems have "distinct (map alloc_id ps)"
      "\<forall>a\<in>set ps. map_of allocs (alloc_id a) = Some a \<and> \<not> alloc_distributed a" by simp_all
    from Cons.IH [OF this] None show ?thesis by (simp add: paid_def)
  next
    case (Some ht)
    obtain h t where ht: "ht = (h, t)" by (cases ht)
    let ?a' = "a\<lparr>alloc_distributed := True, alloc_distributedAt := Some t, alloc_txHash := Some h\<rparr>"
    let ?allocs = "AList.update (alloc_id a) ?a' allocs"
    note p = loop_prems(1-3) [OF Cons.prems]
    note p4 = loop_prems(4) [OF Cons.prems, where a' = ?a']
    have "paid_sum ?allocs k = paid_sum allocs k + (if alloc_shipId a = k then alloc_amount a else 0)"
      unfolding paid_sum_def sum_update p(1) using p(2) by simp
    with Cons.IH [OF p(3) p4] Some ht show ?thesis by (simp add: paid_def)
  qed
qed

lemma payout_loop_entries:
  assumes "\<forall>p\<in>set allocs. alloc_entry_ok sh p" "\<forall>a\<in>set ps. alloc_entry_ok sh (alloc_id a, a)"
  shows "\<forall>p\<in>set (fst (payout_loop send ps allocs payouts calls)). alloc_entry_ok sh p"
  using assms
proof (induction ps arbitrary: allocs payouts calls)
  case Nil
  then show ?case by simp
next
  case (Cons a ps)
  from Cons.prems(2) have rest: "\<forall>a\<in>set ps. alloc_entry_ok sh (alloc_id a, a)" by simp
  show ?case
  proof (cases "send a (netAmount a)")
    case None
    from Cons.IH [OF Cons.prems(1) rest] None show ?thesis by simp
  next
    case (Some ht)
    obtain h t where ht: "ht = (h, t)" by (cases ht)
    let ?a' = "a\<lparr>alloc_distributed := True, alloc_distributedAt := Some t, alloc_txHash := Some h\<rparr>"
    from Cons.prems(2) have "alloc_entry_ok sh (alloc_id a, ?a')"
      by (simp add: alloc_entry_ok_def)
    with Cons.prems(1) have "\<forall>p\<in>set (AList.update (alloc_id a) ?a' allocs). alloc_entry_ok sh p"
      by (rule update_pred)
    from Cons.IH [OF this rest] Some ht show ?thesis by simp
  qed
qed

lemma alloc_entries_mono:
  "\<forall>p\<in>set al. alloc_entry_ok sh p \<Longrightarrow> fst ` set sh \<subseteq> fst ` set sh' \<Longrightarrow>
   \<forall>p\<in>set al. alloc_entry_ok sh' p"
  by (auto simp: alloc_entry_ok_def)

lemma update_keys_mono: "fst ` set al \<subseteq> fst ` set (AList.update k v al)"
  by (simp add: AList.dom_update subset_insertI)

lemma close_expired_pred:
  "\<forall>e\<in>set m. Q e \<Longrightarrow> \<forall>s\<in>set ss. Q (ship_id s, s\<lparr>ship_status := Closed\<rparr>) \<Longrightarrow>
   \<forall>e\<in>set (close_expired now ss m). Q e"
proof (induction ss arbitrary: m)
  case Nil
  then show ?case by simp
next
  case (Cons s ss)
  from Cons.prems(2) have rest: "\<forall>s\<in>set ss. Q (ship_id s, s\<lparr>ship_status := Closed\<rparr>)" by simp
  from Cons.prems(2) have "Q (ship_id s, s\<lparr>ship_status := Closed\<rparr>)" by simp
  with Cons.prems(1) have "\<forall>e\<in>set (AList.update (ship_id s) (s\<lparr>ship_status := Closed\<rparr>) m). Q e"
    by (rule update_pred)
  from Cons.IH [OF this rest] Cons.IH [OF Cons.prems(1) rest] show ?case by simp
qed

lemma close_expired_keys: "fst ` set m \<subseteq> fst ` set (close_expired now ss m)"
proof (induction ss arbitrary: m)
  case Nil
  then show ?case by simp
next
  case (Cons s ss)
  have "fst ` set m \<subseteq> fst ` set (AList.update (ship_id s) (s\<lparr>ship_status := Closed\<rparr>) m)"
    by (rule update_keys_mono)
  also have "\<dots> \<subseteq> fst ` set (close_expired now ss
      (AList.update (ship_id s) (s\<lparr>ship_status := Closed\<rparr>) m))"
    by (rule Cons.IH)
  finally show ?case using Cons.IH [of m] by simp
qed

lemma net_total_le: "0 \<le> t \<Longrightarrow> t - bigint_div (t * FEE_PERCENT) 100 \<le> t"
  by (simp add: bigint_div_nonneg FEE_PERCENT_def)

section \<open>Overlapping requests\<close>

lemma all_tasks_append: "all_tasks P ts \<Longrightarrow> P t \<Longrightarrow> all_tasks P (ts @ [Some t])"
  by (auto simp: all_tasks_def)

lemma all_tasks_update_Some: "all_tasks P ts \<Longrightarrow> P t \<Longrightarrow> all_tasks P (ts[i := Some t])"
  unfolding all_tasks_def using set_update_subset_insert [of ts i "Some t"] by auto

lemma all_tasks_update_None: "all_tasks P ts \<Longrightarrow> all_tasks P (ts[i := None])"
  unfolding all_tasks_def using set_update_subset_insert [of ts i None] by auto

lemma all_tasks_nth: "all_tasks P ts \<Longrightarrow> i < length ts \<Longrightarrow> ts ! i = Some t \<Longrightarrow> P t"
  unfolding all_tasks_def by (metis nth_mem)

lemma all_tasks_mono: "all_tasks P ts \<Longrightarrow> (\<And>t. P t \<Longrightarrow> Q t) \<Longrightarrow> all_tasks Q ts"
  by (auto simp: all_tasks_def)

lemma start_task:
  assumes "distribute_start cfg st sid = Inr t"
  obtains s where "map_of (ships st) sid = Some s" "getWallet cfg"
    "task_shipId t = ship_id s" "task_pending t = pendingAllocations st s"
    "pendingAllocations st s \<noteq> []"
    "task_total t = sum_list (map alloc_amount (pendingAllocations st s))"
    "task_netTotal t = task_total t - bigint_div (task_total t * FEE_PERCENT) 100"
    "task_payouts t = []"
proof -
  from assms obtain s where s: "map_of (ships st) sid = Some s"
    by (auto simp: distribute_start_def split: option.splits)
  with assms have "getWallet cfg"
    "task_shipId t = ship_id s" "task_pending t = pendingAllocations st s"
    "pendingAllocations st s \<noteq> []"
    "task_total t = sum_list (map alloc_amount (pendingAllocations st s))"
    "task_netTotal t = task_total t - bigint_div (task_total t * FEE_PERCENT) 100"
    "task_payouts t = []"
    by (auto simp: distribute_start_def Let_def foldl_amounts split: if_splits)
  with s show thesis by (rule that)
qed


lemma settled_paid:
  assumes "task_pending t = a # rest"
  shows "transfer_settled st t (Some (h, n)) =
     (st\<lparr>allocations := AList.update (alloc_id a)
            (a\<lparr>alloc_distributed := True, alloc_distributedAt := Some n, alloc_txHash := Some h\<rparr>)
            (allocations st)\<rparr>,
      t\<lparr>task_pending := rest,
        task_payouts := task_payouts t @
          [\<lparr>payout_allocationId = alloc_id a, payout_projectName = alloc_projectName a,
            payout_applicant = alloc_applicant a, payout_gross = alloc_amount a,
            payout_net = netAmount a, payout_txHash = h\<rparr>]\<rparr>)"
  using assms by (simp add: transfer_settled_def Let_def)

lemma settled_failed:
  assumes "task_pending t = a # rest"
  shows "transfer_settled st t None = (st, t\<lparr>task_pending := rest\<rparr>)"
  using assms by (simp add: transfer_settled_def)

lemma settled_task:
  assumes "transfer_settled st t outcome = (st', t')"
  shows "task_shipId t' = task_shipId t" "task_total t' = task_total t"
    "task_netTotal t' = task_netTotal t" "task_pending t' = tl (task_pending t)"
    "ships st' = ships st" "applications st' = applications st"
  using assms
  by (auto simp: transfer_settled_def Let_def split: list.splits option.splits)

lemma settled_allocations:
  assumes "transfer_settled st t outcome = (st', t')"
  shows "allocations st' = allocations st \<or>
         (\<exists>a rest h n. task_pending t = a # rest \<and> outcome = Some (h, n) \<and>
            allocations st' = AList.update (alloc_id a)
              (a\<lparr>alloc_distributed := True, alloc_distributedAt := Some n, alloc_txHash := Some h\<rparr>)
              (allocations st))"
  using assms
  by (auto simp: transfer_settled_def Let_def split: list.splits option.splits)

lemma wf_transfer_settled:
  assumes "wf_state st" "transfer_settled st t outcome = (st', t')"
  shows "wf_state st'"
proof -
  from settled_allocations [OF assms(2)] assms(1) have "allocs_ok (allocations st')"
    by (auto simp: wf_state_def intro!: allocs_ok_update)
  with assms(1) settled_task(5,6) [OF assms(2)] show ?thesis by (simp add: wf_state_def)
qed

lemma keys_transfer_settled:
  assumes "keys_ok st" "transfer_settled st t outcome = (st', t')"
  shows "keys_ok st'"
proof -
  from settled_allocations [OF assms(2)] assms(1) have "distinct (map fst (allocations st'))"
    by (auto simp: keys_ok_def AList.distinct_update)
  with assms(1) settled_task(5,6) [OF assms(2)] show ?thesis by (simp add: keys_ok_def)
qed

lemma finish_state:
  assumes "map_of (ships st) (task_shipId t) = Some s"
  shows "ships (distribute_finish st t uuid now) =
           AList.update (ship_id s)
             (s\<lparr>ship_distributed := ship_distributed s + task_netTotal t,
                ship_status := (if ship_distributed s + task_netTotal t \<ge> ship_allocated s
                                then Completed else Distributing)\<rparr>) (ships st)"
    and "allocations (distribute_finish st t uuid now) = allocations st"
    and "applications (distribute_finish st t uuid now) = applications st"
  using assms by (simp_all add: distribute_finish_def Let_def)

lemma finish_unknown:
  "map_of (ships st) (task_shipId t) = None \<Longrightarrow> distribute_finish st t uuid now = st"
  by (simp add: distribute_finish_def)

lemma wf_distribute_finish:
  assumes "wf_state st" "0 \<le> task_netTotal t"
  shows "wf_state (distribute_finish st t uuid now)"
proof (cases "map_of (ships st) (task_shipId t)")
  case None
  with assms(1) show ?thesis by (simp add: finish_unknown)
next
  case (Some s)
  from assms(1) Some have "ship_id s = task_shipId t \<and> toLowerCase (ship_captain s) = ship_captain s \<and>
     0 \<le> ship_distributed s \<and> ship_allocated s \<le> ship_budget s"
    by (intro ships_ok_lookup) (simp_all add: wf_state_def)
  with assms have "ships_ok (ships (distribute_finish st t uuid now))"
    unfolding finish_state(1) [OF Some] by (intro ships_ok_update) (simp_all add: wf_state_def)
  with assms(1) show ?thesis by (simp add: wf_state_def finish_state(2,3) [OF Some])
qed

lemma keys_distribute_finish:
  assumes "keys_ok st"
  shows "keys_ok (distribute_finish st t uuid now)"
proof (cases "map_of (ships st) (task_shipId t)")
  case None
  with assms show ?thesis by (simp add: finish_unknown)
next
  case (Some s)
  with assms show ?thesis
    by (simp add: keys_ok_def finish_state [OF Some] AList.distinct_update)
qed

lemma winv_cstep:
  assumes "winv cs"
  shows "winv (cstep cfg cs e)"
proof (cases e)
  case (Serve r)
  with assms show ?thesis by (simp add: winv_def wf_step keys_ok_step)
next
  case (Start sid)
  show ?thesis
  proof (cases "distribute_start cfg (server cs) sid")
    case (Inl err)
    with Start assms show ?thesis by simp
  next
    case (Inr t)
    from Inr obtain s where t: "task_pending t = pendingAllocations (server cs) s"
      "task_total t = sum_list (map alloc_amount (pendingAllocations (server cs) s))"
      "task_netTotal t = task_total t - bigint_div (task_total t * FEE_PERCENT) 100"
      by (rule start_task)
    have "0 \<le> task_total t"
      unfolding t(2) by (rule sum_list_nonneg) (auto simp: pendingAllocations_def)
    then have "0 \<le> task_netTotal t" unfolding t(3) by (rule net_total_nonneg)
    with assms Start Inr show ?thesis by (simp add: winv_def all_tasks_append)
  qed
next
  case (Settle i outcome uuid now)
  show ?thesis
  proof (cases "i < length (tasks cs)")
    case False
    with Settle assms show ?thesis by simp
  next
    case True
    show ?thesis
    proof (cases "tasks cs ! i")
      case None
      with Settle True assms show ?thesis by simp
    next
      case (Some t)
      obtain st' t' where s: "transfer_settled (server cs) t outcome = (st', t')"
        by (cases "transfer_settled (server cs) t outcome")
      from assms True Some have "0 \<le> task_netTotal t"
        by (auto simp: winv_def dest: all_tasks_nth)
      with settled_task(3) [OF s] have net: "0 \<le> task_netTotal t'" by simp
      from assms s have wf: "wf_state st'" "keys_ok st'"
        by (auto simp: winv_def intro: wf_transfer_settled keys_transfer_settled)
      show ?thesis
      proof (cases "task_pending t' = []")
        case True
        with Settle \<open>i < length (tasks cs)\<close> Some s wf net assms show ?thesis
          by (simp add: winv_def wf_distribute_finish keys_distribute_finish all_tasks_update_None)
      next
        case False
        with Settle \<open>i < length (tasks cs)\<close> Some s wf net assms show ?thesis
          by (simp add: winv_def all_tasks_update_Some)
      qed
    qed
  qed
qed

lemma winv_crun: "winv cs \<Longrightarrow> winv (crun cfg cs es)"
  by (induction es arbitrary: cs) (simp_all add: winv_cstep)

lemma winv_init: "winv init_cstate"
  using wf_init by (simp add: winv_def init_cstate_def keys_ok_def init_state_def all_tasks_def)

lemma winv_reachable: "winv (crun cfg init_cstate es)"
  by (rule winv_crun) (rule winv_init)

lemma crun_append: "crun cfg cs (es @ es') = crun cfg (crun cfg cs es) es'"
  by (induction es arbitrary: cs) simp_all

lemma crun_serve: "server (crun cfg cs (map Serve rs)) = run cfg (server cs) rs"
  by (induction rs arbitrary: cs) simp_all

subsection \<open>Calm runs\<close>

lemma step_ship_keys: "fst ` set (ships st) \<subseteq> fst ` set (ships (step cfg st r))"
proof (cases r)
  case (CreateShip body uuid now)
  then show ?thesis
    by (auto simp: keep_def post_ships_def Let_def AList.dom_update split: sum.splits if_splits)
next
  case (ListShips status now)
  then show ?thesis
    using close_expired_keys [of "ships st" now "map snd (ships st)"]
    by (simp add: get_ships_def Let_def)
next
  case (Fund sid txHash chain)
  then show ?thesis
    by (auto simp: keep_def post_ships_fund_def Let_def AList.dom_update
             split: sum.splits if_splits option.splits rpc.splits)
next
  case (Apply sid body uuid now)
  then show ?thesis
    by (auto simp: keep_def post_ships_apply_def Let_def split: sum.splits if_splits option.splits)
next
  case (Allocate aid body uuid now)
  then show ?thesis
    by (auto simp: keep_def post_applications_allocate_def Let_def AList.dom_update
             split: sum.splits if_splits option.splits)
next
  case (Distribute sid send uuid now)
  show ?thesis
  proof (cases "post_ships_distribute cfg st sid send uuid now")
    case (Inl e)
    with Distribute show ?thesis by (simp add: keep_def)
  next
    case (Inr x)
    obtain st' res where x: "x = (st', res)" by (cases x)
    from Inr x obtain s where s: "map_of (ships st) sid = Some s"
      by (auto simp: post_ships_distribute_def split: option.splits)
    from distribute_result(14) [OF Inr [unfolded x] s] Distribute Inr x show ?thesis
      by (simp add: keep_def update_keys_mono)
  qed
qed

lemma allocate_allocations:
  "allocations (step cfg st (Allocate aid body uuid now)) =
     (case approved_of (post_applications_allocate st aid body uuid now) of
        None \<Rightarrow> allocations st
      | Some a \<Rightarrow> AList.update uuid a (allocations st))"
  by (auto simp: keep_def approved_of_def post_applications_allocate_def Let_def
           split: option.splits if_splits)

lemma step_allocations_same:
  "allocations (step cfg st (CreateShip body uuid now)) = allocations st"
  "allocations (step cfg st (ListShips status now)) = allocations st"
  "allocations (step cfg st (Fund sid txHash chain)) = allocations st"
  "allocations (step cfg st (Apply sid abody uuid now)) = allocations st"
     apply (auto simp: keep_def post_ships_def Let_def split: sum.splits if_splits)[1]
    apply (simp add: get_ships_def Let_def)
   apply (auto simp: keep_def post_ships_fund_def Let_def
             split: sum.splits if_splits option.splits rpc.splits)[1]
  apply (auto simp: keep_def post_ships_apply_def Let_def split: sum.splits if_splits option.splits)[1]
  done

lemma step_alloc_kept:
  assumes "wf_state st" "keys_ok st" "fresh_request cfg st r" "map_of (allocations st) k = Some a"
    and "\<And>sid send uuid now x. r = Distribute sid send uuid now \<Longrightarrow>
           post_ships_distribute cfg st sid send uuid now = Inr x \<Longrightarrow> alloc_shipId a \<noteq> sid"
  shows "map_of (allocations (step cfg st r)) k = Some a"
proof (cases r)
  case (CreateShip body uuid now)
  with assms(4) show ?thesis by (simp only: step_allocations_same)
next
  case (ListShips status now)
  with assms(4) show ?thesis by (simp only: step_allocations_same)
next
  case (Fund sid txHash chain)
  with assms(4) show ?thesis by (simp only: step_allocations_same)
next
  case (Apply sid body uuid now)
  with assms(4) show ?thesis by (simp only: step_allocations_same)
next
  case (Allocate aid body uuid now)
  show ?thesis
  proof (cases "approved_of (post_applications_allocate st aid body uuid now)")
    case None
    with Allocate assms(4) show ?thesis by (simp add: allocate_allocations del: step.simps)
  next
    case (Some b)
    with assms(3) Allocate have "uuid \<notin> fst ` set (allocations st)" by simp
    moreover from assms(4) have "k \<in> fst ` set (allocations st)"
      by (auto dest!: map_of_SomeD intro: rev_image_eqI)
    ultimately have "k \<noteq> uuid" by auto
    with Allocate Some assms(4) show ?thesis
      by (simp add: allocate_allocations AList.update_conv' del: step.simps)
  qed
next
  case (Distribute sid send uuid now)
  show ?thesis
  proof (cases "post_ships_distribute cfg st sid send uuid now")
    case (Inl e)
    with Distribute assms(4) show ?thesis by (simp add: keep_def)
  next
    case (Inr x)
    obtain st' res where x: "x = (st', res)" by (cases x)
    from Inr x obtain s where s: "map_of (ships st) sid = Some s"
      by (auto simp: post_ships_distribute_def split: option.splits)
    note d = distribute_result [OF Inr [unfolded x] s]
    from assms(1) s have sid: "ship_id s = sid"
      by (auto simp: wf_state_def dest: ships_ok_lookup)
    from assms(1,2) have ok: "allocs_ok (allocations st)" "distinct (map fst (allocations st))"
      by (simp_all add: wf_state_def keys_ok_def)
    have "k \<notin> alloc_id ` set (filter (paid send) (pendingAllocations st s))"
    proof
      assume "k \<in> alloc_id ` set (filter (paid send) (pendingAllocations st s))"
      then obtain b where b: "b \<in> set (pendingAllocations st s)" "k = alloc_id b" by auto
      from pending_lookup [OF ok b(1)] b(2) assms(4) have "b = a" by simp
      with b(1) sid have "alloc_shipId a = sid" by (simp add: pendingAllocations_def)
      with assms(5) [OF Distribute Inr] show False by simp
    qed
    from payout_loop_lookup_other [OF this] assms(4) Distribute Inr x d(3) show ?thesis
      by (simp add: keep_def)
  qed
qed

lemma finish_ship_keys:
  "fst ` set (ships st) \<subseteq> fst ` set (ships (distribute_finish st t uuid now))"
proof (cases "map_of (ships st) (task_shipId t)")
  case None
  then show ?thesis by (simp add: finish_unknown)
next
  case (Some s)
  then show ?thesis by (simp add: finish_state(1) [OF Some] update_keys_mono)
qed

lemma finish_allocations: "allocations (distribute_finish st t uuid now) = allocations st"
  by (cases "map_of (ships st) (task_shipId t)") (simp_all add: finish_unknown finish_state)

lemma task_ok_moved:
  assumes "task_ok st t" "fst ` set (ships st) \<subseteq> fst ` set (ships st')"
    and "\<And>a. a \<in> set (task_pending t) \<Longrightarrow> map_of (allocations st') (alloc_id a) = Some a"
  shows "task_ok st' t"
  using assms by (auto simp: task_ok_def)

lemma task_ok_serve:
  assumes "wf_state st" "keys_ok st" "fresh_request cfg st r" "task_ok st t"
    and "\<And>sid send uuid now x. r = Distribute sid send uuid now \<Longrightarrow>
           post_ships_distribute cfg st sid send uuid now = Inr x \<Longrightarrow> task_shipId t \<noteq> sid"
  shows "task_ok (step cfg st r) t"
proof (rule task_ok_moved [OF assms(4) step_ship_keys])
  fix a assume a: "a \<in> set (task_pending t)"
  with assms(4) have look: "map_of (allocations st) (alloc_id a) = Some a"
    and ship: "alloc_shipId a = task_shipId t"
    by (simp_all add: task_ok_def)
  from assms(1-3) look show "map_of (allocations (step cfg st r)) (alloc_id a) = Some a"
  proof (rule step_alloc_kept)
    fix sid send uuid now x
    assume "r = Distribute sid send uuid now"
      "post_ships_distribute cfg st sid send uuid now = Inr x"
    from assms(5) [OF this] ship show "alloc_shipId a \<noteq> sid" by simp
  qed
qed

lemma task_ok_start:
  assumes "wf_state st" "keys_ok st" "distribute_start cfg st sid = Inr t"
  shows "task_ok st t" "task_shipId t = sid"
proof -
  from assms(3) obtain s where s: "map_of (ships st) sid = Some s"
    and t: "task_shipId t = ship_id s" "task_pending t = pendingAllocations st s"
      "pendingAllocations st s \<noteq> []"
      "task_total t = sum_list (map alloc_amount (pendingAllocations st s))"
      "task_netTotal t = task_total t - bigint_div (task_total t * FEE_PERCENT) 100"
    by (rule start_task)
  from assms(1) s have sid: "ship_id s = sid"
    by (auto simp: wf_state_def dest: ships_ok_lookup)
  with t(1) show "task_shipId t = sid" by simp
  from assms(1,2) have ok: "allocs_ok (allocations st)" "distinct (map fst (allocations st))"
    by (simp_all add: wf_state_def keys_ok_def)
  have "0 \<le> task_total t"
    unfolding t(4) by (rule sum_list_nonneg) (auto simp: pendingAllocations_def)
  then have net: "task_netTotal t \<le> task_total t" unfolding t(5) by (rule net_total_le)
  from s sid have key: "task_shipId t \<in> fst ` set (ships st)"
    unfolding t(1) by (auto dest!: map_of_SomeD intro: rev_image_eqI)
  have "\<forall>a\<in>set (task_pending t). map_of (allocations st) (alloc_id a) = Some a
      \<and> \<not> alloc_distributed a \<and> alloc_shipId a = task_shipId t \<and> 0 < alloc_amount a"
    unfolding t(1,2) using pending_lookup [OF ok] by (auto simp: pendingAllocations_def)
  moreover have "sum_list (map alloc_amount (task_pending t)) \<le> task_total t"
    unfolding t(2,4) by simp
  ultimately show "task_ok st t"
    using t(2,3) pending_distinct [OF ok, of s] key net by (simp add: task_ok_def)
qed

lemma task_ok_settle_self:
  assumes "task_ok st t" "transfer_settled st t outcome = (st', t')" "task_pending t' \<noteq> []"
  shows "task_ok st' t'"
proof -
  from assms(1) obtain a rest where p: "task_pending t = a # rest"
    by (cases "task_pending t") (auto simp: task_ok_def)
  note u = settled_task [OF assms(2)]
  from p u(4) have rest: "task_pending t' = rest" by simp
  from assms(1) have ok: "distinct (map alloc_id (a # rest))"
    "\<forall>b\<in>set (a # rest). map_of (allocations st) (alloc_id b) = Some b
        \<and> \<not> alloc_distributed b \<and> alloc_shipId b = task_shipId t \<and> 0 < alloc_amount b"
    "task_shipId t \<in> fst ` set (ships st)" "task_netTotal t \<le> task_total t"
    "sum_list (map alloc_amount (a # rest)) \<le> task_total t"
    unfolding task_ok_def p by simp_all
  from ok(1) have "alloc_id a \<notin> alloc_id ` set rest" by simp
  then have fresh: "\<forall>b\<in>set rest. alloc_id b \<noteq> alloc_id a" by (metis imageI)
  have look: "map_of (allocations st') (alloc_id b) = Some b" if b: "b \<in> set rest" for b
  proof -
    from ok(2) b have old: "map_of (allocations st) (alloc_id b) = Some b" by simp
    from fresh b have ne: "alloc_id b \<noteq> alloc_id a" by simp
    from settled_allocations [OF assms(2)] show ?thesis
    proof
      assume "allocations st' = allocations st"
      with old show ?thesis by simp
    next
      assume "\<exists>a rest h n. task_pending t = a # rest \<and> outcome = Some (h, n) \<and>
            allocations st' = AList.update (alloc_id a)
              (a\<lparr>alloc_distributed := True, alloc_distributedAt := Some n, alloc_txHash := Some h\<rparr>)
              (allocations st)"
      then obtain a' rest' h n where a': "task_pending t = a' # rest'"
        and st': "allocations st' = AList.update (alloc_id a')
              (a'\<lparr>alloc_distributed := True, alloc_distributedAt := Some n, alloc_txHash := Some h\<rparr>)
              (allocations st)"
        by blast
      from a' p have "a' = a" by simp
      with old ne show ?thesis by (simp add: st' AList.update_conv')
    qed
  qed
  show ?thesis
    unfolding task_ok_def rest u(1) u(2) u(3) u(5)
  proof (intro conjI ballI)
    from assms(3) rest show "rest \<noteq> []" by simp
    from ok(1) show "distinct (map alloc_id rest)" by simp
    show "task_shipId t \<in> fst ` set (ships st)" by (rule ok(3))
    show "task_netTotal t \<le> task_total t" by (rule ok(4))
    from ok(2) have "0 < alloc_amount a" by simp
    with ok(5) show "sum_list (map alloc_amount rest) \<le> task_total t" by simp
  next
    fix b assume "b \<in> set rest"
    then show "map_of (allocations st') (alloc_id b) = Some b" by (rule look)
  next
    fix b assume "b \<in> set rest"
    with ok(2) show "\<not> alloc_distributed b" by simp
  next
    fix b assume "b \<in> set rest"
    with ok(2) show "alloc_shipId b = task_shipId t" by simp
  next
    fix b assume "b \<in> set rest"
    with ok(2) show "0 < alloc_amount b" by simp
  qed
qed

lemma task_ok_settle_other:
  assumes "task_ok st t" "task_ok st u" "task_shipId u \<noteq> task_shipId t"
    and "transfer_settled st t outcome = (st', t')"
  shows "task_ok st' u"
proof (rule task_ok_moved [OF assms(2)])
  show "fst ` set (ships st) \<subseteq> fst ` set (ships st')"
    by (simp add: settled_task(5) [OF assms(4)])
  fix b assume b: "b \<in> set (task_pending u)"
  with assms(2) have look: "map_of (allocations st) (alloc_id b) = Some b"
    and ship: "alloc_shipId b = task_shipId u"
    by (simp_all add: task_ok_def)
  from settled_allocations [OF assms(4)]
  show "map_of (allocations st') (alloc_id b) = Some b"
  proof
    assume "allocations st' = allocations st"
    with look show ?thesis by simp
  next
    assume "\<exists>a rest h n. task_pending t = a # rest \<and> outcome = Some (h, n) \<and>
            allocations st' = AList.update (alloc_id a)
              (a\<lparr>alloc_distributed := True, alloc_distributedAt := Some n, alloc_txHash := Some h\<rparr>)
              (allocations st)"
    then obtain a rest h n where a: "task_pending t = a # rest"
      and st': "allocations st' = AList.update (alloc_id a)
              (a\<lparr>alloc_distributed := True, alloc_distributedAt := Some n, alloc_txHash := Some h\<rparr>)
              (allocations st)"
      by blast
    from assms(1) a have "map_of (allocations st) (alloc_id a) = Some a"
      "alloc_shipId a = task_shipId t"
      by (simp_all add: task_ok_def)
    with look ship assms(3) have "alloc_id b \<noteq> alloc_id a" by (metis option.inject)
    with look show ?thesis by (simp add: st' AList.update_conv')
  qed
qed

lemma task_ok_finish: "task_ok st u \<Longrightarrow> task_ok (distribute_finish st t uuid now) u"
  by (rule task_ok_moved [OF _ finish_ship_keys]) (simp_all add: finish_allocations task_ok_def)

lemma idle_all: "idle ts sid = all_tasks (\<lambda>t. task_shipId t \<noteq> sid) ts"
  by (auto simp: idle_def all_tasks_def split: option.splits)

lemma apart_append:
  assumes "apart ts" "idle ts (task_shipId t)"
  shows "apart (ts @ [Some t])"
  unfolding apart_def
proof (intro allI impI)
  fix i j v w
  assume h: "i < length (ts @ [Some t]) \<and> j < length (ts @ [Some t]) \<and>
     (ts @ [Some t]) ! i = Some v \<and> (ts @ [Some t]) ! j = Some w \<and> task_shipId v = task_shipId w"
  from assms(2) have idle: "\<And>k x. k < length ts \<Longrightarrow> ts ! k = Some x \<Longrightarrow> task_shipId x \<noteq> task_shipId t"
    by (auto simp: idle_all dest: all_tasks_nth)
  show "i = j"
  proof (cases "i < length ts")
    case True
    show ?thesis
    proof (cases "j < length ts")
      case j: True
      with True h assms(1) show ?thesis by (auto simp: apart_def nth_append)
    next
      case False
      with h have "j = length ts" by simp
      with True h idle [of i v] show ?thesis by (auto simp: nth_append)
    qed
  next
    case False
    with h have i: "i = length ts" by simp
    show ?thesis
    proof (cases "j < length ts")
      case True
      with i h idle [of j w] show ?thesis by (auto simp: nth_append)
    next
      case False
      with h i show ?thesis by simp
    qed
  qed
qed

lemma apart_update:
  assumes "apart ts" "i < length ts" "ts ! i = Some t"
    and "case x of None \<Rightarrow> True | Some t' \<Rightarrow> task_shipId t' = task_shipId t"
  shows "apart (ts[i := x])"
  unfolding apart_def
proof (intro allI impI)
  fix j k v w
  assume h: "j < length (ts[i := x]) \<and> k < length (ts[i := x]) \<and>
     ts[i := x] ! j = Some v \<and> ts[i := x] ! k = Some w \<and> task_shipId v = task_shipId w"
  have at: "\<exists>v'. ts ! l = Some v' \<and> task_shipId v' = task_shipId y"
    if "l < length ts" "ts[i := x] ! l = Some y" for l y
  proof (cases "l = i")
    case True
    with that assms(2,4) have "x = Some y" by simp
    with assms(3,4) True show ?thesis by simp
  next
    case False
    with that show ?thesis by simp
  qed
  from h at [of j v] at [of k w] obtain v' w' where
    "ts ! j = Some v'" "ts ! k = Some w'" "task_shipId v' = task_shipId w'"
    by auto
  with h assms(1) show "j = k" by (auto simp: apart_def)
qed

lemma apart_other:
  assumes "apart ts" "i < length ts" "ts ! i = Some t" "Some u \<in> set ts" "u \<noteq> t"
  shows "task_shipId u \<noteq> task_shipId t"
proof
  assume eq: "task_shipId u = task_shipId t"
  from assms(4) obtain j where j: "j < length ts" "ts ! j = Some u"
    by (auto simp: in_set_conv_nth)
  with assms(1-3) eq have "j = i" by (auto simp: apart_def)
  with j assms(3,5) show False by simp
qed

lemma cinv_cstep:
  assumes "cinv cs" "calm_step cfg cs e"
  shows "cinv (cstep cfg cs e)"
proof -
  from assms(1) have w: "winv cs" and ok: "all_tasks (task_ok (server cs)) (tasks cs)"
    and ap: "apart (tasks cs)"
    by (simp_all add: cinv_def)
  from w have wf: "wf_state (server cs)" "keys_ok (server cs)" by (simp_all add: winv_def)
  have w': "winv (cstep cfg cs e)" using w by (rule winv_cstep)
  show ?thesis
  proof (cases e)
    case (Serve r)
    from assms(2) Serve have fresh: "fresh_request cfg (server cs) r" by simp
    have "task_ok (step cfg (server cs) r) t" if t: "Some t \<in> set (tasks cs)" for t
    proof (rule task_ok_serve [OF wf fresh])
      from ok t show "task_ok (server cs) t" by (simp add: all_tasks_def)
      fix sid send uuid now x
      assume "r = Distribute sid send uuid now"
        "post_ships_distribute cfg (server cs) sid send uuid now = Inr x"
      with assms(2) Serve have "idle (tasks cs) sid" by simp
      with t show "task_shipId t \<noteq> sid" by (auto simp: idle_def)
    qed
    then have "all_tasks (task_ok (step cfg (server cs) r)) (tasks cs)"
      by (simp add: all_tasks_def)
    with w' ap Serve show ?thesis by (simp add: cinv_def)
  next
    case (Start sid)
    show ?thesis
    proof (cases "distribute_start cfg (server cs) sid")
      case (Inl err)
      with Start assms(1) show ?thesis by simp
    next
      case (Inr t)
      note t = task_ok_start [OF wf Inr]
      from assms(2) Start Inr have "idle (tasks cs) sid" by simp
      with t(2) have "apart (tasks cs @ [Some t])" by (intro apart_append [OF ap]) simp
      moreover from ok t(1) have "all_tasks (task_ok (server cs)) (tasks cs @ [Some t])"
        by (rule all_tasks_append)
      ultimately show ?thesis using w' Start Inr by (simp add: cinv_def)
    qed
  next
    case (Settle i outcome uuid now)
    show ?thesis
    proof (cases "i < length (tasks cs)")
      case False
      with Settle assms(1) show ?thesis by simp
    next
      case len: True
      show ?thesis
      proof (cases "tasks cs ! i")
        case None
        with Settle len assms(1) show ?thesis by simp
      next
        case (Some t)
        obtain st' t' where s: "transfer_settled (server cs) t outcome = (st', t')"
          by (cases "transfer_settled (server cs) t outcome")
        from ok len Some have t: "task_ok (server cs) t" by (rule all_tasks_nth)
        have other: "task_ok st' u" if u: "Some u \<in> set ((tasks cs)[i := x])" "Some u \<noteq> x" for u x
        proof -
          from u(1) obtain j where j: "j < length (tasks cs)" "(tasks cs)[i := x] ! j = Some u"
            by (auto simp: in_set_conv_nth)
          with u(2) len have ji: "j \<noteq> i" by auto
          with j have uj: "tasks cs ! j = Some u" by simp
          from ap j(1) len uj Some ji have "task_shipId u \<noteq> task_shipId t"
            unfolding apart_def by blast
          moreover from ok j(1) uj have "task_ok (server cs) u" by (rule all_tasks_nth)
          ultimately show ?thesis using t s by (intro task_ok_settle_other [OF t _ _ s])
        qed
        show ?thesis
        proof (cases "task_pending t' = []")
          case True
          have "all_tasks (task_ok (distribute_finish st' t' uuid now)) ((tasks cs)[i := None])"
            unfolding all_tasks_def
          proof (intro allI impI)
            fix u assume "Some u \<in> set ((tasks cs)[i := None])"
            then have "task_ok st' u" by (rule other) simp
            then show "task_ok (distribute_finish st' t' uuid now) u" by (rule task_ok_finish)
          qed
          moreover have "apart ((tasks cs)[i := None])"
            by (rule apart_update [OF ap len Some]) simp
          ultimately show ?thesis using w' Settle len Some s True by (simp add: cinv_def)
        next
          case False
          from t s False have t': "task_ok st' t'" by (rule task_ok_settle_self)
          have "all_tasks (task_ok st') ((tasks cs)[i := Some t'])"
            unfolding all_tasks_def
          proof (intro allI impI)
            fix u assume u: "Some u \<in> set ((tasks cs)[i := Some t'])"
            show "task_ok st' u"
            proof (cases "u = t'")
              case True
              with t' show ?thesis by simp
            next
              case False
              with u show ?thesis by (intro other [of u "Some t'"]) simp_all
            qed
          qed
          moreover have "apart ((tasks cs)[i := Some t'])"
            by (rule apart_update [OF ap len Some]) (simp add: settled_task(1) [OF s])
          ultimately show ?thesis using w' Settle len Some s False by (simp add: cinv_def)
        qed
      qed
    qed
  qed
qed

lemma cinv_crun: "cinv cs \<Longrightarrow> calm cfg cs es \<Longrightarrow> cinv (crun cfg cs es)"
  by (induction es arbitrary: cs) (simp_all add: cinv_cstep)

lemma cinv_init: "cinv init_cstate"
  using winv_init by (simp add: cinv_def init_cstate_def all_tasks_def apart_def)

lemma cinv_reachable: "calm cfg init_cstate es \<Longrightarrow> cinv (crun cfg init_cstate es)"
  by (rule cinv_crun [OF cinv_init])

subsection \<open>Benign runs\<close>

lemma sum_list_update_int:
  fixes g :: "'a \<Rightarrow> int"
  shows "i < length xs \<Longrightarrow> sum_list (map g (xs[i := y])) = sum_list (map g xs) - g (xs ! i) + g y"
proof (induction xs arbitrary: i)
  case Nil
  then show ?case by simp
next
  case (Cons x xs)
  then show ?case by (cases i) simp_all
qed

lemma flagged_append:
  "flagged (ts @ [Some t]) k = flagged ts k +
     (if task_shipId t = k then task_total t - sum_list (map alloc_amount (task_pending t)) else 0)"
  by (simp add: flagged_def)

lemma flagged_update:
  assumes "i < length ts" "ts ! i = Some t"
  shows "flagged (ts[i := Some t']) k = flagged ts k
           - (if task_shipId t = k then task_total t - sum_list (map alloc_amount (task_pending t)) else 0)
           + (if task_shipId t' = k then task_total t' - sum_list (map alloc_amount (task_pending t')) else 0)"
    and "flagged (ts[i := None]) k = flagged ts k
           - (if task_shipId t = k then task_total t - sum_list (map alloc_amount (task_pending t)) else 0)"
  unfolding flagged_def sum_list_update_int [OF assms(1)] assms(2) by simp_all

lemma flagged_absent:
  assumes "all_tasks (\<lambda>t. task_shipId t \<noteq> k) ts"
  shows "flagged ts k = 0"
  using assms unfolding flagged_def all_tasks_def
  by (induction ts) (auto split: option.splits)

lemma flagged_nonneg:
  assumes "all_tasks (\<lambda>t. sum_list (map alloc_amount (task_pending t)) \<le> task_total t) ts"
  shows "0 \<le> flagged ts k"
  unfolding flagged_def
proof (rule sum_list_nonneg)
  fix v
  assume "v \<in> set (map (\<lambda>x. case x of None \<Rightarrow> 0
       | Some t \<Rightarrow> if task_shipId t = k
                   then task_total t - sum_list (map alloc_amount (task_pending t)) else 0) ts)"
  then obtain x where x: "x \<in> set ts" and v: "v = (case x of None \<Rightarrow> 0
       | Some t \<Rightarrow> if task_shipId t = k
                   then task_total t - sum_list (map alloc_amount (task_pending t)) else 0)"
    by auto
  show "0 \<le> v"
  proof (cases x)
    case None
    with v show ?thesis by simp
  next
    case (Some t)
    with x assms have "sum_list (map alloc_amount (task_pending t)) \<le> task_total t"
      by (simp add: all_tasks_def)
    with v Some show ?thesis by simp
  qed
qed

lemma ledger_same_amounts:
  assumes "ledger_st off st" "map_of (ships st) k = Some s"
    and "ship_distributed s' = ship_distributed s" "ship_allocated s' = ship_allocated s"
    and "ships st' = AList.update k s' (ships st)" "allocations st' = allocations st"
  shows "ledger_st off st'"
proof -
  from assms(2) have "(k, s) \<in> set (ships st)" by (rule map_of_SomeD)
  with assms(1) have "ship_entry_ok off (allocations st) (k, s)" by (auto simp: ledger_st_def)
  with assms(3,4) have new: "ship_entry_ok off (allocations st) (k, s')"
    by (simp add: ship_entry_ok_def)
  from assms(1) have "\<forall>p\<in>set (ships st). ship_entry_ok off (allocations st) p"
    by (simp add: ledger_st_def)
  from update_pred [OF this new] have 1: "\<forall>p\<in>set (ships st'). ship_entry_ok off (allocations st') p"
    by (simp add: assms(5,6))
  from assms(1) have "\<forall>p\<in>set (allocations st). alloc_entry_ok (ships st) p"
    by (simp add: ledger_st_def)
  then have "\<forall>p\<in>set (allocations st). alloc_entry_ok (AList.update k s' (ships st)) p"
    by (rule alloc_entries_mono) (rule update_keys_mono)
  with 1 show ?thesis by (simp add: ledger_st_def assms(5,6))
qed

lemma ledger_post_ships:
  assumes "ledger_st off st" "post_ships cfg st body uuid now = Inr (st', r)"
    and "uuid \<notin> fst ` set (ships st)" "off uuid \<le> 0"
  shows "ledger_st off st'"
proof -
  from assms(2) have r: "ships st' = AList.update uuid r (ships st)" "allocations st' = allocations st"
    "ship_distributed r = 0" "ship_allocated r = 0"
    by (auto simp: post_ships_def Let_def split: if_splits)
  from assms(1) have al: "\<forall>p\<in>set (allocations st). alloc_entry_ok (ships st) p"
    and sh: "\<forall>p\<in>set (ships st). ship_entry_ok off (allocations st) p"
    by (simp_all add: ledger_st_def)
  from al have "\<forall>p\<in>set (allocations st). 0 \<le> alloc_amount (snd p)"
    by (simp add: alloc_entry_ok_def)
  then have 1: "0 \<le> paid_sum (allocations st) uuid" by (rule paid_sum_nonneg)
  from al assms(3) have "\<forall>p\<in>set (allocations st). alloc_shipId (snd p) \<noteq> uuid"
    by (auto simp: alloc_entry_ok_def)
  then have "allocated_sum (allocations st) uuid = 0" by (rule allocated_sum_unreferenced)
  with 1 r(3,4) assms(4) have "ship_entry_ok off (allocations st) (uuid, r)"
    by (simp add: ship_entry_ok_def)
  from update_pred [OF sh this] have 2: "\<forall>p\<in>set (ships st'). ship_entry_ok off (allocations st') p"
    by (simp add: r)
  from al have "\<forall>p\<in>set (allocations st). alloc_entry_ok (AList.update uuid r (ships st)) p"
    by (rule alloc_entries_mono) (rule update_keys_mono)
  with 2 show ?thesis by (simp add: ledger_st_def r)
qed

lemma ledger_get_ships:
  assumes "wf_state st" "ledger_st off st"
  shows "ledger_st off (fst (get_ships st status now))"
proof -
  let ?sh = "close_expired now (map snd (ships st)) (ships st)"
  from assms(2) have al: "\<forall>p\<in>set (allocations st). alloc_entry_ok (ships st) p"
    and sh: "\<forall>p\<in>set (ships st). ship_entry_ok off (allocations st) p"
    by (simp_all add: ledger_st_def)
  have "\<forall>s\<in>set (map snd (ships st)).
      ship_entry_ok off (allocations st) (ship_id s, s\<lparr>ship_status := Closed\<rparr>)"
  proof
    fix s assume "s \<in> set (map snd (ships st))"
    then obtain k where k: "(k, s) \<in> set (ships st)" by auto
    with assms(1) have "ship_id s = k" by (auto simp: wf_state_def ships_ok_def)
    with k sh show "ship_entry_ok off (allocations st) (ship_id s, s\<lparr>ship_status := Closed\<rparr>)"
      by (auto simp: ship_entry_ok_def)
  qed
  with sh have 1: "\<forall>e\<in>set ?sh. ship_entry_ok off (allocations st) e"
    by (rule close_expired_pred)
  from al have "\<forall>p\<in>set (allocations st). alloc_entry_ok ?sh p"
    by (rule alloc_entries_mono) (rule close_expired_keys)
  with 1 show ?thesis by (simp add: ledger_st_def get_ships_def Let_def)
qed

lemma ledger_post_ships_fund:
  assumes "wf_state st" "ledger_st off st" "post_ships_fund cfg st sid txHash chain = Inr (st', r)"
  shows "ledger_st off st'"
proof -
  from assms(3) obtain s where s: "map_of (ships st) sid = Some s"
    by (auto simp: post_ships_fund_def split: option.splits)
  from assms(3) s have r: "ships st' = AList.update (ship_id s) r (ships st)"
    "allocations st' = allocations st"
    "ship_distributed r = ship_distributed s" "ship_allocated r = ship_allocated s"
    by (auto simp: post_ships_fund_def Let_def split: option.splits if_splits rpc.splits)
  from assms(1) s have "ship_id s = sid"
    by (auto simp: wf_state_def dest: ships_ok_lookup)
  with assms(2) s r show ?thesis
    by (intro ledger_same_amounts [of off st sid s r st']) simp_all
qed

lemma ledger_post_ships_apply:
  assumes "ledger_st off st" "post_ships_apply cfg st sid body uuid now = Inr (st', r)"
  shows "ledger_st off st'"
proof -
  from assms(2) have "ships st' = ships st" "allocations st' = allocations st"
    by (auto simp: post_ships_apply_def Let_def split: option.splits if_splits)
  with assms(1) show ?thesis by (simp add: ledger_st_def)
qed

lemma ledger_post_applications_allocate:
  assumes "wf_state st" "keys_ok st" "ledger_st off st"
    and "post_applications_allocate st aid body uuid now = Inr (st', r)"
    and "\<And>a. approved_of (Inr (st', r)) = Some a \<Longrightarrow>
           uuid \<notin> fst ` set (allocations st) \<and> 0 \<le> alloc_amount a"
  shows "ledger_st off st'"
proof (cases "body_approved body = Some (JBool False)")
  case True
  with assms(4) have "ships st' = ships st" "allocations st' = allocations st"
    by (auto simp: post_applications_allocate_def Let_def split: option.splits if_splits)
  with assms(3) show ?thesis by (simp add: ledger_st_def)
next
  case False
  from assms(4) obtain app s where app: "map_of (applications st) aid = Some app"
    and s: "map_of (ships st) (app_shipId app) = Some s"
    by (auto simp: post_applications_allocate_def split: option.splits)
  from assms(4) app s False obtain v where v: "parseEther (amount_text body) = Some v"
    by (auto simp: post_applications_allocate_def amount_text_def split: option.splits if_splits)
  let ?a = "\<lparr>alloc_id = uuid, alloc_shipId = ship_id s, alloc_applicationId = app_id app,
             alloc_projectName = app_projectName app, alloc_applicant = app_applicant app,
             alloc_amount = v, alloc_distributed = False, alloc_createdAt = now,
             alloc_distributedAt = None, alloc_txHash = None\<rparr>"
  let ?s' = "s\<lparr>ship_allocated := ship_allocated s + v\<rparr>"
  let ?k = "ship_id s"
  from assms(4) app s False v have st': "allocations st' = AList.update uuid ?a (allocations st)"
    "ships st' = AList.update ?k ?s' (ships st)"
    by (auto simp: post_applications_allocate_def amount_text_def Let_def split: if_splits)
  from assms(4) app s False v have "approved_of (Inr (st', r)) = Some ?a"
    by (auto simp: post_applications_allocate_def amount_text_def Let_def approved_of_def
             split: if_splits)
  from assms(5) [OF this] have fr: "uuid \<notin> fst ` set (allocations st)" and v0: "0 \<le> v"
    by simp_all
  from assms(1) s have k: "?k = app_shipId app"
    by (auto simp: wf_state_def dest: ships_ok_lookup)
  from s k have mem: "(?k, s) \<in> set (ships st)" by (auto dest: map_of_SomeD)
  from assms(3) have al: "\<forall>p\<in>set (allocations st). alloc_entry_ok (ships st) p"
    and sh: "\<forall>p\<in>set (ships st). ship_entry_ok off (allocations st) p"
    by (simp_all add: ledger_st_def)
  from fr have fresh: "map_of (allocations st) uuid = None" by (rule fresh_key_lookup)
  have asum: "allocated_sum (allocations st') k' =
      allocated_sum (allocations st) k' + (if ?k = k' then v else 0)" for k'
    unfolding st' allocated_sum_def sum_update fresh by simp
  have psum: "paid_sum (allocations st') k' = paid_sum (allocations st) k'" for k'
    unfolding st' paid_sum_def sum_update fresh by simp
  from assms(2) have "distinct (map fst (ships st))" by (simp add: keys_ok_def)
  then have ships': "set (ships st') = insert (?k, ?s') {e \<in> set (ships st). fst e \<noteq> ?k}"
    unfolding st' by (rule set_update_distinct)
  have 1: "\<forall>p\<in>set (ships st'). ship_entry_ok off (allocations st') p"
  proof
    fix p assume "p \<in> set (ships st')"
    with ships' consider "p = (?k, ?s')" | "p \<in> set (ships st)" "fst p \<noteq> ?k" by auto
    then show "ship_entry_ok off (allocations st') p"
    proof cases
      case 1
      from sh mem have "ship_entry_ok off (allocations st) (?k, s)" by blast
      with 1 show ?thesis by (simp add: ship_entry_ok_def asum psum)
    next
      case 2
      from sh 2(1) have "ship_entry_ok off (allocations st) p" by blast
      with 2(2) show ?thesis by (simp add: ship_entry_ok_def asum psum)
    qed
  qed
  have keys: "fst ` set (ships st) \<subseteq> fst ` set (ships st')"
    unfolding st' by (rule update_keys_mono)
  from al keys have old: "\<forall>p\<in>set (allocations st). alloc_entry_ok (ships st') p"
    by (rule alloc_entries_mono)
  from mem keys have "?k \<in> fst ` set (ships st')" by force
  with v0 have "alloc_entry_ok (ships st') (uuid, ?a)" by (simp add: alloc_entry_ok_def)
  from update_pred [OF old this] have "\<forall>p\<in>set (allocations st'). alloc_entry_ok (ships st') p"
    by (simp add: st')
  with 1 show ?thesis by (simp add: ledger_st_def)
qed

lemma ledger_post_ships_distribute:
  assumes "wf_state st" "keys_ok st" "ledger_st off st"
    and "post_ships_distribute cfg st sid send uuid now = Inr (st', r)"
    and "map_of (ships st) sid = Some s"
    and "list_all (paid send) (pendingAllocations st s)"
  shows "ledger_st off st'"
proof -
  note d = distribute_result [OF assms(4,5)]
  let ?ps = "pendingAllocations st s"
  let ?t = "sum_list (map alloc_amount ?ps)"
  let ?k = "ship_id s"
  from assms(1) have aok: "allocs_ok (allocations st)" by (simp add: wf_state_def)
  from assms(2) have dk: "distinct (map fst (allocations st))" "distinct (map fst (ships st))"
    by (simp_all add: keys_ok_def)
  from assms(1,5) have k: "?k = sid" by (auto simp: wf_state_def dest: ships_ok_lookup)
  from assms(5) k have mem: "(?k, s) \<in> set (ships st)" by (auto dest: map_of_SomeD)
  from assms(3) have al: "\<forall>p\<in>set (allocations st). alloc_entry_ok (ships st) p"
    and sh: "\<forall>p\<in>set (ships st). ship_entry_ok off (allocations st) p"
    by (simp_all add: ledger_st_def)
  have dist: "distinct (map alloc_id ?ps)" using aok dk(1) by (rule pending_distinct)
  have look: "\<forall>a\<in>set ?ps. map_of (allocations st) (alloc_id a) = Some a \<and> \<not> alloc_distributed a"
    using pending_lookup [OF aok dk(1)] by (auto simp: pendingAllocations_def)
  then have look': "\<forall>a\<in>set ?ps. map_of (allocations st) (alloc_id a) = Some a \<and> True" by simp
  have asum: "allocated_sum (allocations st') k' = allocated_sum (allocations st) k'" for k'
    unfolding d(3) using dist look' by (rule payout_loop_allocated_sum)
  have sums: "sum_list (map (\<lambda>a. if paid send a \<and> alloc_shipId a = k' then alloc_amount a else 0) ?ps)
        = (if ?k = k' then ?t else 0)" for k'
  proof -
    have "map (\<lambda>a. if paid send a \<and> alloc_shipId a = k' then alloc_amount a else 0) ?ps =
          map (\<lambda>a. if ?k = k' then alloc_amount a else 0) ?ps"
      using assms(6) by (intro map_cong) (auto simp: list_all_iff pendingAllocations_def)
    then have "sum_list (map (\<lambda>a. if paid send a \<and> alloc_shipId a = k' then alloc_amount a else 0) ?ps) =
          sum_list (map (\<lambda>a. if ?k = k' then alloc_amount a else 0) ?ps)"
      by (rule arg_cong)
    also have "\<dots> = (if ?k = k' then ?t else 0)" by simp
    finally show ?thesis .
  qed
  from payout_loop_paid_sum [OF dist look, of send "[]" "[]"] sums
  have psum: "paid_sum (allocations st') k' =
      paid_sum (allocations st) k' + (if ?k = k' then ?t else 0)" for k'
    unfolding d(3) by simp
  have t0: "0 \<le> ?t" by (rule sum_list_nonneg) (auto simp: pendingAllocations_def)
  from d(6,7,8,9) have dist': "ship_distributed (res_ship r) =
      ship_distributed s + (?t - bigint_div (?t * FEE_PERCENT) 100)"
    by simp
  with net_total_le [OF t0] have le: "ship_distributed (res_ship r) \<le> ship_distributed s + ?t"
    by simp
  have ships': "set (ships st') = insert (?k, res_ship r) {e \<in> set (ships st). fst e \<noteq> ?k}"
    unfolding d(14) using dk(2) by (rule set_update_distinct)
  have 1: "\<forall>p\<in>set (ships st'). ship_entry_ok off (allocations st') p"
  proof
    fix p assume "p \<in> set (ships st')"
    with ships' consider "p = (?k, res_ship r)" | "p \<in> set (ships st)" "fst p \<noteq> ?k" by auto
    then show "ship_entry_ok off (allocations st') p"
    proof cases
      case 1
      from sh mem have "ship_entry_ok off (allocations st) (?k, s)" by blast
      with 1 le d(11) show ?thesis by (simp add: ship_entry_ok_def asum psum)
    next
      case 2
      from sh 2(1) have "ship_entry_ok off (allocations st) p" by blast
      with 2(2) show ?thesis by (simp add: ship_entry_ok_def asum psum)
    qed
  qed
  have keys: "fst ` set (ships st) \<subseteq> fst ` set (ships st')"
    unfolding d(14) by (rule update_keys_mono)
  from al keys have old: "\<forall>p\<in>set (allocations st). alloc_entry_ok (ships st') p"
    by (rule alloc_entries_mono)
  have "\<forall>a\<in>set ?ps. alloc_entry_ok (ships st') (alloc_id a, a)"
  proof
    fix a assume "a \<in> set ?ps"
    with look have "(alloc_id a, a) \<in> set (allocations st)" by (auto dest: map_of_SomeD)
    with old show "alloc_entry_ok (ships st') (alloc_id a, a)" by blast
  qed
  with old have "\<forall>p\<in>set (allocations st'). alloc_entry_ok (ships st') p"
    unfolding d(3) by (rule payout_loop_entries)
  with 1 show ?thesis by (simp add: ledger_st_def)
qed

lemma ledger_keep:
  "ledger_st off st \<Longrightarrow> (\<And>st' x. r = Inr (st', x) \<Longrightarrow> ledger_st off st') \<Longrightarrow>
   ledger_st off (keep st r)"
  by (auto simp: keep_def split: sum.splits)


lemma flagged_unknown:
  assumes "all_tasks (task_ok st) ts" "k \<notin> fst ` set (ships st)"
  shows "flagged ts k = 0"
proof (rule flagged_absent)
  from assms(1) show "all_tasks (\<lambda>t. task_shipId t \<noteq> k) ts"
  proof (rule all_tasks_mono)
    fix t assume "task_ok st t"
    with assms(2) show "task_shipId t \<noteq> k" by (auto simp: task_ok_def)
  qed
qed

lemma ledger_serve:
  assumes "cinv cs" "ledger_ok cs" "calm_step cfg cs (Serve r)" "paying_step cfg cs (Serve r)"
  shows "ledger_ok (cstep cfg cs (Serve r))"
proof -
  let ?st = "server cs" and ?off = "flagged (tasks cs)"
  from assms(1) have wf: "wf_state ?st" and keys: "keys_ok ?st"
    and ok: "all_tasks (task_ok ?st) (tasks cs)"
    by (simp_all add: cinv_def winv_def)
  from assms(2) have l: "ledger_st ?off ?st" by (simp add: ledger_ok_def)
  have "ledger_st ?off (step cfg ?st r)"
  proof (cases r)
    case (CreateShip body uuid now)
    have "ledger_st ?off st'" if x: "post_ships cfg ?st body uuid now = Inr (st', x)" for st' x
    proof -
      from assms(3) CreateShip x have fr: "uuid \<notin> fst ` set (ships ?st)" by simp
      with ok have "?off uuid = 0" by (rule flagged_unknown)
      with l x fr show ?thesis by (intro ledger_post_ships [OF l x fr]) simp
    qed
    with l CreateShip show ?thesis by (auto intro!: ledger_keep)
  next
    case (ListShips status now)
    with wf l show ?thesis by (simp add: ledger_get_ships)
  next
    case (Fund sid txHash chain)
    with wf l show ?thesis by (auto intro!: ledger_keep elim: ledger_post_ships_fund)
  next
    case (Apply sid body uuid now)
    with l show ?thesis by (auto intro!: ledger_keep elim: ledger_post_ships_apply)
  next
    case (Allocate aid body uuid now)
    have "ledger_st ?off st'"
      if x: "post_applications_allocate ?st aid body uuid now = Inr (st', x)" for st' x
      using wf keys l x
    proof (rule ledger_post_applications_allocate)
      fix a assume "approved_of (Inr (st', x)) = Some a"
      with assms(3,4) Allocate x
      show "uuid \<notin> fst ` set (allocations ?st) \<and> 0 \<le> alloc_amount a" by simp
    qed
    with l Allocate show ?thesis by (auto intro!: ledger_keep)
  next
    case (Distribute sid send uuid now)
    show ?thesis
    proof (cases "post_ships_distribute cfg ?st sid send uuid now")
      case (Inl e)
      with Distribute l show ?thesis by (simp add: keep_def)
    next
      case (Inr x)
      obtain st' res where x: "x = (st', res)" by (cases x)
      from Inr x obtain s where s: "map_of (ships ?st) sid = Some s"
        by (auto simp: post_ships_distribute_def split: option.splits)
      with assms(4) Distribute Inr have "list_all (paid send) (pendingAllocations ?st s)" by simp
      with wf keys l Inr x s have "ledger_st ?off st'"
        by (intro ledger_post_ships_distribute [of ?st ?off cfg sid send uuid now st' res s]) simp_all
      with Distribute Inr x show ?thesis by (simp add: keep_def)
    qed
  qed
  then show ?thesis by (simp add: ledger_ok_def)
qed

lemma ledger_start:
  assumes "ledger_ok cs"
  shows "ledger_ok (cstep cfg cs (Start sid))"
proof (cases "distribute_start cfg (server cs) sid")
  case (Inl err)
  with assms show ?thesis by simp
next
  case (Inr t)
  from Inr obtain s where "task_pending t = pendingAllocations (server cs) s"
    "task_total t = sum_list (map alloc_amount (pendingAllocations (server cs) s))"
    by (rule start_task)
  then have "flagged (tasks cs @ [Some t]) = flagged (tasks cs)"
    by (intro ext) (simp add: flagged_append)
  with assms Inr show ?thesis by (simp add: ledger_ok_def)
qed

lemma ledger_settle:
  assumes "cinv cs" "ledger_ok cs" "paying_step cfg cs (Settle i outcome uuid now)"
  shows "ledger_ok (cstep cfg cs (Settle i outcome uuid now))"
proof (cases "i < length (tasks cs)")
  case False
  with assms(2) show ?thesis by simp
next
  case len: True
  show ?thesis
  proof (cases "tasks cs ! i")
    case None
    with len assms(2) show ?thesis by simp
  next
    case (Some t)
    let ?st = "server cs" and ?ts = "tasks cs"
    from assms(3) len Some obtain h n where out: "outcome = Some (h, n)" by auto
    from assms(1) have wf: "wf_state ?st" and keys: "keys_ok ?st"
      and ok: "all_tasks (task_ok ?st) ?ts"
      by (simp_all add: cinv_def winv_def)
    from ok len Some have t: "task_ok ?st t" by (rule all_tasks_nth)
    then obtain a rest where p: "task_pending t = a # rest"
      by (cases "task_pending t") (auto simp: task_ok_def)
    from t p have a: "map_of (allocations ?st) (alloc_id a) = Some a" "\<not> alloc_distributed a"
      "alloc_shipId a = task_shipId t"
      and key: "task_shipId t \<in> fst ` set (ships ?st)" and net: "task_netTotal t \<le> task_total t"
      by (simp_all add: task_ok_def)
    let ?a' = "a\<lparr>alloc_distributed := True, alloc_distributedAt := Some n, alloc_txHash := Some h\<rparr>"
    let ?al = "AList.update (alloc_id a) ?a' (allocations ?st)"
    let ?st' = "?st\<lparr>allocations := ?al\<rparr>"
    let ?t' = "t\<lparr>task_pending := rest, task_payouts := task_payouts t @
          [\<lparr>payout_allocationId = alloc_id a, payout_projectName = alloc_projectName a,
            payout_applicant = alloc_applicant a, payout_gross = alloc_amount a,
            payout_net = netAmount a, payout_txHash = h\<rparr>]\<rparr>"
    have s: "transfer_settled ?st t outcome = (?st', ?t')"
      unfolding out by (rule settled_paid [OF p])
    from assms(2) have al: "\<forall>p\<in>set (allocations ?st). alloc_entry_ok (ships ?st) p"
      and sh: "\<forall>p\<in>set (ships ?st). ship_entry_ok (flagged ?ts) (allocations ?st) p"
      by (simp_all add: ledger_ok_def ledger_st_def)
    have asum: "allocated_sum ?al k = allocated_sum (allocations ?st) k" for k
      unfolding allocated_sum_def sum_update a(1) by simp
    have psum: "paid_sum ?al k = paid_sum (allocations ?st) k
        + (if task_shipId t = k then alloc_amount a else 0)" for k
      unfolding paid_sum_def sum_update a(1) using a(2,3) by simp
    from a(1) have "(alloc_id a, a) \<in> set (allocations ?st)" by (rule map_of_SomeD)
    with al have "alloc_entry_ok (ships ?st) (alloc_id a, a)" by blast
    then have "alloc_entry_ok (ships ?st) (alloc_id a, ?a')"
      by (simp add: alloc_entry_ok_def)
    with al have al': "\<forall>p\<in>set ?al. alloc_entry_ok (ships ?st) p" by (rule update_pred)
    show ?thesis
    proof (cases "rest = []")
      case False
      have fl: "flagged (?ts[i := Some ?t']) k = flagged ?ts k
          + (if task_shipId t = k then alloc_amount a else 0)" for k
        unfolding flagged_update(1) [OF len Some] by (simp add: p)
      have "\<forall>q\<in>set (ships ?st). ship_entry_ok (flagged (?ts[i := Some ?t'])) ?al q"
      proof
        fix q assume "q \<in> set (ships ?st)"
        with sh have "ship_entry_ok (flagged ?ts) (allocations ?st) q" by blast
        then show "ship_entry_ok (flagged (?ts[i := Some ?t'])) ?al q"
          by (simp add: ship_entry_ok_def asum psum fl)
      qed
      with al' have "ledger_st (flagged (?ts[i := Some ?t'])) ?st'" by (simp add: ledger_st_def)
      with len Some s False show ?thesis by (simp add: ledger_ok_def)
    next
      case True
      let ?k = "task_shipId t"
      from key have "map_of (ships ?st) ?k \<noteq> None" by (simp add: map_of_eq_None_iff)
      then obtain sp where sp: "map_of (ships ?st) ?k = Some sp" by blast
      with wf have id: "ship_id sp = ?k" by (auto simp: wf_state_def dest: ships_ok_lookup)
      let ?d = "ship_distributed sp + task_netTotal t"
      let ?sp' = "sp\<lparr>ship_distributed := ?d,
          ship_status := (if ?d \<ge> ship_allocated sp then Completed else Distributing)\<rparr>"
      let ?sh' = "AList.update ?k ?sp' (ships ?st)"
      have sp': "map_of (ships ?st') (task_shipId ?t') = Some sp" using sp by simp
      have fin: "ships (distribute_finish ?st' ?t' uuid now) = ?sh'"
        "allocations (distribute_finish ?st' ?t' uuid now) = ?al"
        using finish_state(1,2) [OF sp', of uuid now] id by simp_all
      have fl: "flagged (?ts[i := None]) k = flagged ?ts k
          - (if ?k = k then task_total t - alloc_amount a else 0)" for k
        unfolding flagged_update(2) [OF len Some] by (simp add: p True)
      from keys have "distinct (map fst (ships ?st))" by (simp add: keys_ok_def)
      then have ships': "set ?sh' = insert (?k, ?sp') {e \<in> set (ships ?st). fst e \<noteq> ?k}"
        by (rule set_update_distinct)
      from sp have mem: "(?k, sp) \<in> set (ships ?st)" by (rule map_of_SomeD)
      have 1: "\<forall>q\<in>set ?sh'. ship_entry_ok (flagged (?ts[i := None])) ?al q"
      proof
        fix q assume "q \<in> set ?sh'"
        with ships' consider "q = (?k, ?sp')" | "q \<in> set (ships ?st)" "fst q \<noteq> ?k" by auto
        then show "ship_entry_ok (flagged (?ts[i := None])) ?al q"
        proof cases
          case 1
          from sh mem have "ship_entry_ok (flagged ?ts) (allocations ?st) (?k, sp)" by blast
          with 1 net show ?thesis by (simp add: ship_entry_ok_def asum psum fl)
        next
          case 2
          from sh 2(1) have "ship_entry_ok (flagged ?ts) (allocations ?st) q" by blast
          with 2(2) show ?thesis by (simp add: ship_entry_ok_def asum psum fl)
        qed
      qed
      from al' have "\<forall>p\<in>set ?al. alloc_entry_ok ?sh' p"
        by (rule alloc_entries_mono) (rule update_keys_mono)
      with 1 fin have "ledger_st (flagged (?ts[i := None])) (distribute_finish ?st' ?t' uuid now)"
        by (simp add: ledger_st_def)
      with len Some s True show ?thesis by (simp add: ledger_ok_def)
    qed
  qed
qed

lemma ledger_cstep:
  assumes "cinv cs" "ledger_ok cs" "calm_step cfg cs e" "paying_step cfg cs e"
  shows "ledger_ok (cstep cfg cs e)"
proof (cases e)
  case (Serve r)
  with assms show ?thesis by (simp only: ledger_serve)
next
  case (Start sid)
  with assms(2) show ?thesis by (simp only: ledger_start)
next
  case (Settle i outcome uuid now)
  with assms show ?thesis by (simp only: ledger_settle)
qed

lemma ledger_crun:
  "cinv cs \<Longrightarrow> ledger_ok cs \<Longrightarrow> benign cfg cs es \<Longrightarrow> ledger_ok (crun cfg cs es)"
  by (induction es arbitrary: cs) (simp_all add: cinv_cstep ledger_cstep)

lemma benign_calm: "benign cfg cs es \<Longrightarrow> calm cfg cs es"
  by (induction es arbitrary: cs) simp_all

lemma ledger_init: "ledger_ok init_cstate"
  by (simp add: ledger_ok_def ledger_st_def init_cstate_def init_state_def)

lemma ledger_reachable: "benign cfg init_cstate es \<Longrightarrow> ledger_ok (crun cfg init_cstate es)"
  by (rule ledger_crun [OF cinv_init ledger_init])

lemma ledger_entry:
  assumes "cinv cs" "ledger_ok cs" "(k, s) \<in> set (ships (server cs))"
  shows "ship_distributed s \<le> ship_allocated s"
proof -
  from assms(2) have nn: "\<forall>p\<in>set (allocations (server cs)). 0 \<le> alloc_amount (snd p)"
    by (simp add: ledger_ok_def ledger_st_def alloc_entry_ok_def)
  from assms(1) have "all_tasks (task_ok (server cs)) (tasks cs)" by (simp add: cinv_def)
  then have "all_tasks (\<lambda>t. sum_list (map alloc_amount (task_pending t)) \<le> task_total t) (tasks cs)"
    by (rule all_tasks_mono) (simp add: task_ok_def)
  then have "0 \<le> flagged (tasks cs) k" by (rule flagged_nonneg)
  moreover from assms(2,3) have "ship_entry_ok (flagged (tasks cs)) (allocations (server cs)) (k, s)"
    by (auto simp: ledger_ok_def ledger_st_def)
  then have "ship_distributed s + flagged (tasks cs) k \<le> paid_sum (allocations (server cs)) k"
    "allocated_sum (allocations (server cs)) k \<le> ship_allocated s"
    by (simp_all add: ship_entry_ok_def)
  moreover from nn have "paid_sum (allocations (server cs)) k \<le> allocated_sum (allocations (server cs)) k"
    by (rule paid_le_allocated_sum)
  ultimately show ?thesis by simp
qed

section \<open>Example runs with requests in flight\<close>

lemma parseEther_quarter: "parseEther ''0.25'' = Some 250000000000000000"
  by code_simp

lemma parseEther_half: "parseEther ''0.5'' = Some 500000000000000000"
  by code_simp

lemma crun_quiet:
  "list_all (\<lambda>r. case r of Distribute sid send uuid now \<Rightarrow> False | _ \<Rightarrow> True) rs \<Longrightarrow>
   crun cfg cs (map Serve rs) = cs\<lparr>server := run cfg (server cs) rs\<rparr>"
proof (induction rs arbitrary: cs)
  case Nil
  then show ?case by simp
next
  case (Cons r rs)
  then show ?case by (cases r) (simp_all add: calls_of_def)
qed

lemma demo_pair:
  "run demo_cfg init_state pair_trace =
   \<lparr>ships = [(''ship-1'', demo_ship 1000000000000000000 750000000000000000 0 Open)],
    applications = [(''app-1'', demo_app Approved 500000000000000000)],
    allocations = [(''alloc-1'', demo_alloc ''alloc-1'' 250000000000000000),
                   (''alloc-2'', demo_alloc ''alloc-2'' 500000000000000000)],
    distributions = []\<rparr>"
  unfolding pair_trace_def run_append demo_funded
  by (simp add: demo_defs eval_defs parseEther_quarter parseEther_half)

lemma demo_pair_served:
  "crun demo_cfg init_cstate (map Serve pair_trace) =
   \<lparr>server = run demo_cfg init_state pair_trace, tasks = [], sent = []\<rparr>"
proof -
  have "list_all (\<lambda>r. case r of Distribute sid send uuid now \<Rightarrow> False | _ \<Rightarrow> True) pair_trace"
    by (simp add: pair_trace_def funded_trace_def demo_create_def demo_fund_def demo_apply_def
          demo_allocate_def)
  from crun_quiet [OF this] show ?thesis by (simp add: init_cstate_def)
qed

lemma demo_start:
  "distribute_start demo_cfg (run demo_cfg init_state pair_trace) ''ship-1'' =
   Inr (demo_task [demo_alloc ''alloc-1'' 250000000000000000,
                   demo_alloc ''alloc-2'' 500000000000000000] [])"
  by (simp add: demo_pair distribute_start_def pendingAllocations_def demo_wallet Let_def
        FEE_PERCENT_def bigint_div_def demo_task_def)
     (simp add: demo_ship_def demo_alloc_def)


lemma demo_nets:
  "netAmount (demo_alloc uuid 250000000000000000) = 237500000000000000"
  "netAmount (demo_alloc uuid 500000000000000000) = 475000000000000000"
  by (simp_all add: netAmount_def bigint_div_def demo_alloc_def)

lemma demo_started_twice:
  "crun demo_cfg init_cstate (map Serve pair_trace @ [Start ''ship-1'', Start ''ship-1'']) =
   \<lparr>server = run demo_cfg init_state pair_trace,
    tasks = [Some (demo_task [demo_alloc ''alloc-1'' 250000000000000000,
                               demo_alloc ''alloc-2'' 500000000000000000] []),
             Some (demo_task [demo_alloc ''alloc-1'' 250000000000000000,
                               demo_alloc ''alloc-2'' 500000000000000000] [])],
    sent = [(demo_applicant, 237500000000000000), (demo_applicant, 237500000000000000)]\<rparr>"
  by (simp add: crun_append demo_pair_served demo_start next_call_def demo_task_def demo_nets)
     (simp add: demo_alloc_def)

lemma demo_overlap:
  "crun demo_cfg init_cstate overlap_trace =
   \<lparr>server =
      \<lparr>ships = [(''ship-1'', demo_ship 1000000000000000000 750000000000000000
                                       712500000000000000 Distributing)],
       applications = [(''app-1'', demo_app Approved 500000000000000000)],
       allocations = [(''alloc-1'', demo_flagged ''alloc-1'' 250000000000000000 ''0xaa'' 1010),
                      (''alloc-2'', demo_flagged ''alloc-2'' 500000000000000000 ''0xbb'' 1012)],
       distributions = [(''dist-1'',
          \<lparr>dist_id = ''dist-1'', dist_shipId = ''ship-1'', dist_shipName = ''Builders'',
           dist_totalGross = 750000000000000000, dist_totalFee = 37500000000000000,
           dist_totalNet = 712500000000000000,
           dist_payouts = [demo_paid_out ''alloc-1'' 250000000000000000 237500000000000000 ''0xaa'',
                           demo_paid_out ''alloc-2'' 500000000000000000 475000000000000000 ''0xbb''],
           dist_createdAt = 1013\<rparr>)]\<rparr>,
    tasks = [None, Some (demo_task [demo_alloc ''alloc-1'' 250000000000000000,
                                     demo_alloc ''alloc-2'' 500000000000000000] [])],
    sent = [(demo_applicant, 237500000000000000), (demo_applicant, 237500000000000000),
            (demo_applicant, 475000000000000000)]\<rparr>"
proof -
  have eq: "overlap_trace = (map Serve pair_trace @ [Start ''ship-1'', Start ''ship-1'']) @
     [Settle 0 (Some (''0xaa'', 1010)) ''dist-1'' 1011,
      Settle 0 (Some (''0xbb'', 1012)) ''dist-1'' 1013]"
    by (simp add: overlap_trace_def)
  show ?thesis
    apply (subst eq)
    apply (subst crun_append)
    apply (subst demo_started_twice)
    apply (simp add: demo_pair transfer_settled_def distribute_finish_def next_call_def
             demo_task_def demo_nets demo_flagged_def demo_paid_out_def Let_def)
    apply (simp add: demo_alloc_def demo_ship_def)
    done
qed



lemma benign_append:
  "benign cfg cs (es @ es') = (benign cfg cs es \<and> benign cfg (crun cfg cs es) es')"
  by (induction es arbitrary: cs) auto

lemma demo_pair_benign: "benign demo_cfg init_cstate (map Serve pair_trace)"
  by (simp add: pair_trace_def funded_trace_def demo_defs eval_defs init_cstate_def
        approved_of_def calls_of_def parseEther_quarter parseEther_half)

lemma demo_interleaved:
  "crun demo_cfg init_cstate interleaved_trace =
   \<lparr>server =
      \<lparr>ships = [(''ship-1'', demo_ship 2000000000000000000 750000000000000000 0 Open)],
       applications = [(''app-1'', demo_app Approved 500000000000000000)],
       allocations = [(''alloc-1'', demo_flagged ''alloc-1'' 250000000000000000 ''0xaa'' 1010),
                      (''alloc-2'', demo_alloc ''alloc-2'' 500000000000000000)],
       distributions = []\<rparr>,
    tasks = [Some (demo_task [demo_alloc ''alloc-2'' 500000000000000000]
               [demo_paid_out ''alloc-1'' 250000000000000000 237500000000000000 ''0xaa''])],
    sent = [(demo_applicant, 237500000000000000), (demo_applicant, 475000000000000000)]\<rparr>"
  unfolding interleaved_trace_def
  apply (subst crun_append)
  apply (subst demo_pair_served)
  apply (simp add: demo_start next_call_def demo_task_def demo_nets calls_of_def)
  apply (simp add: demo_pair transfer_settled_def demo_flagged_def demo_paid_out_def
           demo_nets Let_def next_call_def)
  apply (simp add: demo_defs eval_defs)
  done


lemma demo_settled:
  "crun demo_cfg init_cstate settled_trace =
   \<lparr>server =
      \<lparr>ships = [(''ship-1'', demo_ship 2000000000000000000 750000000000000000
                                       712500000000000000 Distributing)],
       applications = [(''app-1'', demo_app Approved 500000000000000000)],
       allocations = [(''alloc-1'', demo_flagged ''alloc-1'' 250000000000000000 ''0xaa'' 1010),
                      (''alloc-2'', demo_flagged ''alloc-2'' 500000000000000000 ''0xbb'' 1012)],
       distributions = [(''dist-1'',
          \<lparr>dist_id = ''dist-1'', dist_shipId = ''ship-1'', dist_shipName = ''Builders'',
           dist_totalGross = 750000000000000000, dist_totalFee = 37500000000000000,
           dist_totalNet = 712500000000000000,
           dist_payouts = [demo_paid_out ''alloc-1'' 250000000000000000 237500000000000000 ''0xaa'',
                           demo_paid_out ''alloc-2'' 500000000000000000 475000000000000000 ''0xbb''],
           dist_createdAt = 1013\<rparr>)]\<rparr>,
    tasks = [None],
    sent = [(demo_applicant, 237500000000000000), (demo_applicant, 475000000000000000)]\<rparr>"
  unfolding settled_trace_def
  apply (subst crun_append)
  apply (subst demo_interleaved)
  apply (simp add: transfer_settled_def distribute_finish_def demo_task_def demo_flagged_def
           demo_paid_out_def demo_nets Let_def)
  apply (simp add: demo_alloc_def demo_ship_def)
  done

lemma demo_settled_benign: "benign demo_cfg init_cstate settled_trace"
  unfolding settled_trace_def interleaved_trace_def
  apply (subst append_assoc)
  apply (subst benign_append)
  apply (subst demo_pair_served)
  apply (simp add: demo_pair_benign demo_start idle_def next_call_def demo_task_def demo_nets
           calls_of_def demo_fund_def)
  done

lemma demo_doubled:
  "ships (server (crun demo_cfg init_cstate doubled_trace)) =
     [(''ship-1'', demo_ship 1000000000000000000 750000000000000000 1425000000000000000 Completed)]"
  unfolding doubled_trace_def
  apply (subst crun_append)
  apply (subst demo_overlap)
  apply (simp add: transfer_settled_def distribute_finish_def demo_task_def demo_flagged_def
           demo_paid_out_def demo_nets Let_def next_call_def)
  apply (simp add: demo_alloc_def demo_ship_def)
  done



section \<open>Repeated distribution\<close>





section \<open>The ledger invariant\<close>

text \<open>
  Claim C1 as stated fails. After the approval of the amount text \<open>-1\<close> the ship of the
  first example run has \<open>allocated\<close> of minus one ether, below its \<open>distributed\<close> of 0.
  In the second run all amounts are positive and all transfers succeed, but two
  distribution calls for the ship overlap: each adds the net total of its snapshot, and
  the ship ends with \<open>distributed\<close> of 1.425 ether above its \<open>allocated\<close> of 0.75 ether.
\<close>

theorem ledger_counterexample:
  "ships (server (crun demo_cfg init_cstate (map Serve negative_trace))) =
     [(''ship-1'', demo_ship 1000000000000000000 (- 1000000000000000000) 0 Open)]
   \<and> \<not> (ship_distributed (demo_ship 1000000000000000000 (- 1000000000000000000) 0 Open)
          \<le> ship_allocated (demo_ship 1000000000000000000 (- 1000000000000000000) 0 Open))
   \<and> ships (server (crun demo_cfg init_cstate doubled_trace)) =
     [(''ship-1'', demo_ship 1000000000000000000 750000000000000000 1425000000000000000 Completed)]
   \<and> \<not> (ship_distributed
            (demo_ship 1000000000000000000 750000000000000000 1425000000000000000 Completed)
          \<le> ship_allocated
            (demo_ship 1000000000000000000 750000000000000000 1425000000000000000 Completed))"
proof -
  have "ships (run demo_cfg init_state negative_trace) =
     [(''ship-1'', demo_ship 1000000000000000000 (- 1000000000000000000) 0 Open)]"
    by (simp add: negative_trace_def run_append demo_funded)
       (simp add: demo_defs eval_defs)
  then have "ships (server (crun demo_cfg init_cstate (map Serve negative_trace))) =
     [(''ship-1'', demo_ship 1000000000000000000 (- 1000000000000000000) 0 Open)]"
    by (simp add: crun_serve init_cstate_def)
  with demo_doubled show ?thesis by (simp add: demo_ship_def)
qed

text \<open>
  Claim C1, amended. For every ship of every state that a run of the server reaches,
  requests overlapping or not, \<open>0 \<le> distributed\<close> and \<open>allocated \<le> budget\<close>. If moreover
  the run was benign (every ship and allocation it created got an unused identifier, no
  allocation it created has a negative amount, none of its transfers failed, and no
  distribution call for a ship started while another one for that ship was in flight),
  then also \<open>0 \<le> allocated\<close> and \<open>distributed \<le> allocated\<close>, that is
  \<open>0 \<le> distributed \<le> allocated \<le> budget\<close>.
\<close>

theorem ledger_invariant:
  assumes "(k, s) \<in> set (ships (server (crun cfg init_cstate evs)))"
  shows "0 \<le> ship_distributed s \<and> ship_allocated s \<le> ship_budget s
       \<and> (benign cfg init_cstate evs \<longrightarrow>
            0 \<le> ship_allocated s \<and> ship_distributed s \<le> ship_allocated s)"
proof -
  have "ships_ok (ships (server (crun cfg init_cstate evs)))"
    using winv_reachable [of cfg evs] by (simp add: winv_def wf_state_def)
  with assms have 1: "0 \<le> ship_distributed s \<and> ship_allocated s \<le> ship_budget s"
    by (auto simp: ships_ok_def)
  have 2: "0 \<le> ship_allocated s \<and> ship_distributed s \<le> ship_allocated s"
    if b: "benign cfg init_cstate evs"
  proof -
    from b have "cinv (crun cfg init_cstate evs)" by (intro cinv_reachable benign_calm)
    moreover from b have "ledger_ok (crun cfg init_cstate evs)" by (rule ledger_reachable)
    ultimately have "ship_distributed s \<le> ship_allocated s" using assms by (rule ledger_entry)
    with 1 show ?thesis by simp
  qed
  from 1 2 show ?thesis by blast
qed

text \<open>
  The ship of the example run, in which a funding request is served while a distribution
  call is in flight, after both allocations have been paid.
\<close>

theorem ledger_invariant_witness:
  "(0::int) \<le> 712500000000000000 \<and> (750000000000000000::int) \<le> 2000000000000000000
   \<and> (0::int) \<le> 750000000000000000 \<and> (712500000000000000::int) \<le> 750000000000000000
   \<and> benign demo_cfg init_cstate settled_trace
   \<and> (''ship-1'', demo_ship 2000000000000000000 750000000000000000 712500000000000000 Distributing)
        \<in> set (ships (server (crun demo_cfg init_cstate settled_trace)))"
proof -
  have mem: "(''ship-1'', demo_ship 2000000000000000000 750000000000000000 712500000000000000 Distributing)
        \<in> set (ships (server (crun demo_cfg init_cstate settled_trace)))"
    by (simp add: demo_settled)
  from ledger_invariant [OF mem] demo_settled_benign mem show ?thesis
    by (simp add: demo_ship_def)
qed

end
